theory Spec2Isabelle
  imports Main
begin

section \<open>Data model (backend.h, fsm.h, defines.h)\<close>

text \<open>
  C \<^verbatim>\<open>int\<close> values are modelled as mathematical integers. The model is exact as long
  as no signed arithmetic overflows, which is undefined in C (\<open>c_int\<close> below is the range of
  a 32-bit \<^verbatim>\<open>int\<close>). A matrix (\<^verbatim>\<open>int **\<close>) is a list of rows.
\<close>

type_synonym matrix = "int list list"

definition c_int :: "int \<Rightarrow> bool" where
  "c_int v \<longleftrightarrow> - (2 ^ 31) \<le> v \<and> v < 2 ^ 31"

definition MAX_LEVEL :: int where "MAX_LEVEL = 10"
definition INITIAL_TIMEOUT :: int where "INITIAL_TIMEOUT = 500"
definition SPEED_DECREMENT :: int where "SPEED_DECREMENT = 30"
definition NUMBER_OF_FIGURES :: nat where "NUMBER_OF_FIGURES = 7"
definition SIDE_OF_FIGURE_SQUARE :: nat where "SIDE_OF_FIGURE_SQUARE = 4"
definition ROWS_MAP :: nat where "ROWS_MAP = 20"
definition COLS_MAP :: nat where "COLS_MAP = 10"
definition FIGURESTART_X :: int where
  "FIGURESTART_X = (int COLS_MAP - int SIDE_OF_FIGURE_SQUARE) div 2"
definition FIGURESTART_Y :: int where "FIGURESTART_Y = 0"
definition NO_ERROR :: int where "NO_ERROR = 0"
definition ERROR :: int where "ERROR = 1"

declare MAX_LEVEL_def [simp] INITIAL_TIMEOUT_def [simp] SPEED_DECREMENT_def [simp]
  NUMBER_OF_FIGURES_def [simp] SIDE_OF_FIGURE_SQUARE_def [simp] ROWS_MAP_def [simp]
  COLS_MAP_def [simp] FIGURESTART_X_def [simp] FIGURESTART_Y_def [simp]
  NO_ERROR_def [simp] ERROR_def [simp]

text \<open>
  \<^verbatim>\<open>FigurePos_t\<close> and \<^verbatim>\<open>GameInfo_t\<close>. The fields \<^verbatim>\<open>x\<close> and \<^verbatim>\<open>y\<close> are named \<open>pos_x\<close> and
  \<open>pos_y\<close>, the field \<^verbatim>\<open>next\<close> is named \<open>next_fig\<close> (\<open>next\<close> is a word of the proof language) and the field
  \<^verbatim>\<open>high_score\<close> is named \<open>high_score_val\<close> (its update function would take the name of
  \<^verbatim>\<open>high_score_update\<close>).
\<close>

record FigurePos_t =
  pos_x :: int
  pos_y :: int

record GameInfo_t =
  field :: matrix
  next_fig :: matrix
  score :: int
  high_score_val :: int
  level :: int
  speed :: int
  pause :: int

datatype TetrisState_t = START | SPAWN | MOVING | SHIFTING | ATTACHING | GAMEOVER | EXIT_ERROR

datatype UserAction_t = Start | Pause | Terminate | Left | Right | Up | Down | Action | No_signal

text \<open>Shape invariants of the two kinds of matrix: the sizes \<^verbatim>\<open>init_field\<close> allocates.\<close>

definition is_figure :: "matrix \<Rightarrow> bool" where
  "is_figure m \<longleftrightarrow>
     length m = SIDE_OF_FIGURE_SQUARE \<and> (\<forall>r \<in> set m. length r = SIDE_OF_FIGURE_SQUARE)"

definition is_field :: "matrix \<Rightarrow> bool" where
  "is_field m \<longleftrightarrow> length m = ROWS_MAP \<and> (\<forall>r \<in> set m. length r = COLS_MAP)"

definition binary :: "matrix \<Rightarrow> bool" where
  "binary m \<longleftrightarrow> (\<forall>r \<in> set m. \<forall>c \<in> set r. c = 0 \<or> c = 1)"

section \<open>Grid and figure engine (backend.c)\<close>

subsection \<open>\<^verbatim>\<open>rotate_figure\<close>\<close>

text \<open>
  The first loop nest fills \<^verbatim>\<open>tmp_figure[i][j] = figure[j][SIDE_OF_FIGURE_SQUARE - i - 1]\<close>,
  the second copies all sixteen cells of \<^verbatim>\<open>tmp_figure\<close> back into \<^verbatim>\<open>figure\<close>.
\<close>

definition rotate_figure :: "matrix \<Rightarrow> matrix" where
  "rotate_figure figure =
     map (\<lambda>i. map (\<lambda>j. figure ! j ! (SIDE_OF_FIGURE_SQUARE - i - 1))
                [0..<SIDE_OF_FIGURE_SQUARE])
         [0..<SIDE_OF_FIGURE_SQUARE]"

subsection \<open>\<^verbatim>\<open>check_collide\<close>\<close>

text \<open>
  Both loops carry the guard \<^verbatim>\<open>rc == false\<close>. The field is read only after the four
  bounds tests failed, so the read is inside the 20 by 10 grid.
\<close>

function check_collide_j ::
  "matrix \<Rightarrow> matrix \<Rightarrow> FigurePos_t \<Rightarrow> nat \<Rightarrow> nat \<Rightarrow> bool \<Rightarrow> bool" where
  "check_collide_j fld figure fig_pos i j rc =
     (if rc = False \<and> j < SIDE_OF_FIGURE_SQUARE then
        check_collide_j fld figure fig_pos i (j + 1)
          (if figure ! i ! j = 1 then
             (let y = pos_y fig_pos + int i; x = pos_x fig_pos + int j in
              if x < 0 \<or> y < 0 \<or> x \<ge> int COLS_MAP \<or> y \<ge> int ROWS_MAP
                 \<or> fld ! nat y ! nat x = 1
              then True else rc)
           else rc)
      else rc)"
  by pat_completeness auto
termination
  by (relation "measure (\<lambda>(fld, figure, fig_pos, i, j, rc). SIDE_OF_FIGURE_SQUARE - j)") auto

function check_collide_i ::
  "matrix \<Rightarrow> matrix \<Rightarrow> FigurePos_t \<Rightarrow> nat \<Rightarrow> bool \<Rightarrow> bool" where
  "check_collide_i fld figure fig_pos i rc =
     (if rc = False \<and> i < SIDE_OF_FIGURE_SQUARE then
        check_collide_i fld figure fig_pos (i + 1) (check_collide_j fld figure fig_pos i 0 rc)
      else rc)"
  by pat_completeness auto
termination
  by (relation "measure (\<lambda>(fld, figure, fig_pos, i, rc). SIDE_OF_FIGURE_SQUARE - i)") auto

definition check_collide :: "matrix \<Rightarrow> matrix \<Rightarrow> FigurePos_t \<Rightarrow> bool" where
  "check_collide fld figure fig_pos = check_collide_i fld figure fig_pos 0 False"

declare check_collide_j.simps [simp del] check_collide_i.simps [simp del]

subsection \<open>\<^verbatim>\<open>figures_choice\<close>, \<^verbatim>\<open>assign_next_figure\<close>, \<^verbatim>\<open>copy_next_figure_to_figure\<close>\<close>

definition all_figures :: "matrix list" where
  "all_figures =
     [[[0, 0, 0, 0], [1, 1, 1, 1], [0, 0, 0, 0], [0, 0, 0, 0]],
      [[0, 0, 0, 0], [0, 1, 1, 0], [0, 1, 1, 0], [0, 0, 0, 0]],
      [[0, 0, 0, 0], [1, 0, 0, 0], [1, 1, 1, 0], [0, 0, 0, 0]],
      [[0, 0, 0, 0], [0, 0, 1, 0], [1, 1, 1, 0], [0, 0, 0, 0]],
      [[0, 0, 0, 0], [1, 1, 0, 0], [0, 1, 1, 0], [0, 0, 0, 0]],
      [[0, 0, 0, 0], [0, 1, 1, 0], [1, 1, 0, 0], [0, 0, 0, 0]],
      [[0, 0, 0, 0], [0, 1, 0, 0], [1, 1, 1, 0], [0, 0, 0, 0]]]"

text \<open>Copies the sixteen cells of \<^verbatim>\<open>all_figures[n]\<close>; every caller passes \<open>n < 7\<close>.\<close>

definition figures_choice :: "nat \<Rightarrow> matrix" where
  "figures_choice n = all_figures ! n"

text \<open>
  \<open>random\<close> is the value \<^verbatim>\<open>rand()\<close> returns (never negative). The shape and the
  number of rotations both derive from it.
\<close>

definition assign_next_figure :: "nat \<Rightarrow> matrix" where
  "assign_next_figure random =
     (let rotation_n = random mod 4;
          fig_number = random mod NUMBER_OF_FIGURES
      in (rotate_figure ^^ rotation_n) (figures_choice fig_number))"

definition copy_next_figure_to_figure :: "GameInfo_t \<Rightarrow> matrix" where
  "copy_next_figure_to_figure game =
     map (\<lambda>i. map (\<lambda>j. next_fig game ! i ! j) [0..<SIDE_OF_FIGURE_SQUARE])
         [0..<SIDE_OF_FIGURE_SQUARE]"

subsection \<open>\<^verbatim>\<open>init_figure_position\<close>\<close>

text \<open>
  Each of the two loop nests keeps one running \<^verbatim>\<open>sum\<close> (here \<open>acc\<close>) across its outer
  iterations
  and stops as soon as it is non-zero. The first walks rows and lowers \<^verbatim>\<open>y\<close>, the
  second walks columns (\<^verbatim>\<open>figure[j][i]\<close>) and lowers \<^verbatim>\<open>x\<close>.
\<close>

function init_sum_row :: "matrix \<Rightarrow> nat \<Rightarrow> nat \<Rightarrow> int \<Rightarrow> int" where
  "init_sum_row figure i j acc =
     (if acc = 0 \<and> j < SIDE_OF_FIGURE_SQUARE
      then init_sum_row figure i (j + 1) (acc + figure ! i ! j) else acc)"
  by pat_completeness auto
termination
  by (relation "measure (\<lambda>(figure, i, j, acc). SIDE_OF_FIGURE_SQUARE - j)") auto

function init_y_loop :: "matrix \<Rightarrow> nat \<Rightarrow> int \<Rightarrow> int \<Rightarrow> int" where
  "init_y_loop figure i acc y =
     (if acc = 0 \<and> i < SIDE_OF_FIGURE_SQUARE then
        (let acc' = init_sum_row figure i 0 acc
         in init_y_loop figure (i + 1) acc' (if acc' = 0 then y - 1 else y))
      else y)"
  by pat_completeness auto
termination
  by (relation "measure (\<lambda>(figure, i, acc, y). SIDE_OF_FIGURE_SQUARE - i)") auto

function init_sum_col :: "matrix \<Rightarrow> nat \<Rightarrow> nat \<Rightarrow> int \<Rightarrow> int" where
  "init_sum_col figure i j acc =
     (if acc = 0 \<and> j < SIDE_OF_FIGURE_SQUARE
      then init_sum_col figure i (j + 1) (acc + figure ! j ! i) else acc)"
  by pat_completeness auto
termination
  by (relation "measure (\<lambda>(figure, i, j, acc). SIDE_OF_FIGURE_SQUARE - j)") auto

function init_x_loop :: "matrix \<Rightarrow> nat \<Rightarrow> int \<Rightarrow> int \<Rightarrow> int" where
  "init_x_loop figure i acc x =
     (if acc = 0 \<and> i < SIDE_OF_FIGURE_SQUARE then
        (let acc' = init_sum_col figure i 0 acc
         in init_x_loop figure (i + 1) acc' (if acc' = 0 then x - 1 else x))
      else x)"
  by pat_completeness auto
termination
  by (relation "measure (\<lambda>(figure, i, acc, x). SIDE_OF_FIGURE_SQUARE - i)") auto

declare init_sum_row.simps [simp del] init_y_loop.simps [simp del]
  init_sum_col.simps [simp del] init_x_loop.simps [simp del]

definition init_figure_position :: "matrix \<Rightarrow> FigurePos_t" where
  "init_figure_position figure =
     \<lparr>pos_x = init_x_loop figure 0 0 FIGURESTART_X,
      pos_y = init_y_loop figure 0 0 FIGURESTART_Y\<rparr>"

subsection \<open>\<^verbatim>\<open>destruction_of_rows\<close>, \<^verbatim>\<open>check_finished_row\<close>, \<^verbatim>\<open>shift_rows_down\<close>\<close>

function check_finished_row_loop :: "int list \<Rightarrow> nat \<Rightarrow> int \<Rightarrow> int" where
  "check_finished_row_loop row j finished_row =
     (if finished_row = 1 \<and> j < COLS_MAP
      then check_finished_row_loop row (j + 1) (if row ! j \<noteq> 1 then 0 else finished_row)
      else finished_row)"
  by pat_completeness auto
termination
  by (relation "measure (\<lambda>(row, j, finished_row). COLS_MAP - j)") auto

declare check_finished_row_loop.simps [simp del]

definition check_finished_row :: "int list \<Rightarrow> int" where
  "check_finished_row row = check_finished_row_loop row 0 1"

text \<open>
  \<^verbatim>\<open>shift_rows_down(row)\<close> walks \<^verbatim>\<open>i\<close> from \<^verbatim>\<open>row\<close> down to 0 and overwrites the ten
  cells of row \<^verbatim>\<open>i\<close> with those of row \<^verbatim>\<open>i - 1\<close>, or with 0 when \<^verbatim>\<open>i\<close> is 0.
\<close>

definition shift_cells :: "matrix \<Rightarrow> nat \<Rightarrow> matrix" where
  "shift_cells fld i =
     fold (\<lambda>j f. f[i := (f ! i)[j := (if i > 0 then f ! (i - 1) ! j else 0)]])
          [0..<COLS_MAP] fld"

fun shift_rows_loop :: "nat \<Rightarrow> matrix \<Rightarrow> matrix" where
  "shift_rows_loop 0 fld = shift_cells fld 0"
| "shift_rows_loop (Suc i) fld = shift_rows_loop i (shift_cells fld (Suc i))"

definition shift_rows_down :: "nat \<Rightarrow> matrix \<Rightarrow> matrix" where
  "shift_rows_down row fld = shift_rows_loop row fld"

definition destruction_of_rows :: "matrix \<Rightarrow> int \<times> matrix" where
  "destruction_of_rows fld =
     fold (\<lambda>i (n_rows, f).
             if check_finished_row (f ! i) \<noteq> 0 then (n_rows + 1, shift_rows_down i f)
             else (n_rows, f))
          [0..<ROWS_MAP] (0, fld)"

subsection \<open>\<^verbatim>\<open>recalculate_stats\<close>\<close>

text \<open>C division of integers truncates towards zero.\<close>

definition c_div :: "int \<Rightarrow> int \<Rightarrow> int" where
  "c_div a b = (if (a < 0) = (b < 0) then \<bar>a\<bar> div \<bar>b\<bar> else - (\<bar>a\<bar> div \<bar>b\<bar>))"

definition recalculate_stats :: "GameInfo_t \<Rightarrow> int \<Rightarrow> GameInfo_t" where
  "recalculate_stats game n_rows =
     (if n_rows \<noteq> 0 then
        (let g1 = (if n_rows = 1 then game\<lparr>score := score game + 100\<rparr> else game);
             g2 = (if n_rows = 2 then g1\<lparr>score := score g1 + 300\<rparr> else g1);
             g3 = (if n_rows = 3 then g2\<lparr>score := score g2 + 700\<rparr> else g2);
             g4 = (if n_rows = 4 then g3\<lparr>score := score g3 + 1500\<rparr> else g3);
             g5 = g4\<lparr>level := 1 + c_div (score g4) 600\<rparr>
         in g5\<lparr>speed := INITIAL_TIMEOUT - (level g5 - 1) * SPEED_DECREMENT\<rparr>)
      else game)"

subsection \<open>\<^verbatim>\<open>attach_figure_to_field\<close>\<close>

text \<open>
  The only unguarded write of the engine. A target outside the 20 by 10 grid leaves the
  row or the whole block that \<^verbatim>\<open>init_field\<close> allocated; the model stops there with the
  fault \<open>OutOfBounds\<close> instead of corrupting memory. \<open>NeverReturns\<close> is the outcome of
  a loop that does not end (see \<^verbatim>\<open>movedown\<close>).
\<close>

datatype fault = OutOfBounds | NeverReturns

definition field_set :: "matrix \<Rightarrow> int \<Rightarrow> int \<Rightarrow> fault + matrix" where
  "field_set fld y x =
     (if 0 \<le> y \<and> y < int ROWS_MAP \<and> 0 \<le> x \<and> x < int COLS_MAP
      then Inr (fld[nat y := (fld ! nat y)[nat x := 1]])
      else Inl OutOfBounds)"

text \<open>The cells the two loops write, in the order of the loops: row by row, \<^verbatim>\<open>if (figure[i][j])\<close>.\<close>

definition attach_targets :: "matrix \<Rightarrow> FigurePos_t \<Rightarrow> (int \<times> int) list" where
  "attach_targets figure fig_pos =
     concat (map (\<lambda>i. concat (map (\<lambda>j.
         (let y = pos_y fig_pos + int i; x = pos_x fig_pos + int j
          in if figure ! i ! j \<noteq> 0 then [(y, x)] else []))
       [0..<SIDE_OF_FIGURE_SQUARE])) [0..<SIDE_OF_FIGURE_SQUARE])"

fun write_cells :: "matrix \<Rightarrow> (int \<times> int) list \<Rightarrow> fault + matrix" where
  "write_cells fld [] = Inr fld"
| "write_cells fld ((y, x) # cs) =
     (case field_set fld y x of Inl e \<Rightarrow> Inl e | Inr fld' \<Rightarrow> write_cells fld' cs)"

definition attach_figure_to_field :: "matrix \<Rightarrow> matrix \<Rightarrow> FigurePos_t \<Rightarrow> fault + matrix" where
  "attach_figure_to_field fld figure fig_pos = write_cells fld (attach_targets figure fig_pos)"

subsection \<open>\<^verbatim>\<open>high_score_update\<close>\<close>

text \<open>
  The record file \<^verbatim>\<open>./out/record_note.txt\<close> as the C library presents it: its text
  when it exists, whether \<^verbatim>\<open>fopen\<close> with mode \<^verbatim>\<open>"r+"\<close> opens an existing file, and
  whether \<^verbatim>\<open>fopen\<close> with mode \<^verbatim>\<open>"w"\<close> can create or truncate it.
\<close>

record record_file =
  content :: "string option"
  opens_rw :: bool
  opens_w :: bool

text \<open>\<^verbatim>\<open>fprintf(f, "%d", v)\<close>: an optional minus sign and the decimal digits.\<close>

definition digit_char :: "nat \<Rightarrow> char" where
  "digit_char d = ''0123456789'' ! d"

function digits_of :: "nat \<Rightarrow> string" where
  "digits_of n =
     (if n < 10 then [digit_char n] else digits_of (n div 10) @ [digit_char (n mod 10)])"
  by pat_completeness auto
termination
  by (relation "measure id") auto

declare digits_of.simps [simp del]

definition print_int :: "int \<Rightarrow> string" where
  "print_int v = (if v < 0 then CHR ''-'' # digits_of (nat (- v)) else digits_of (nat v))"

text \<open>
  \<^verbatim>\<open>fscanf(f, "%d", &v)\<close> from the start of the file: white space is skipped, then an
  optional sign and at least one digit are read, up to the first character that is not a
  digit. \<open>None\<close> is the matching failure (or end of file), which leaves \<^verbatim>\<open>v\<close> as it was.
\<close>

definition is_space :: "char \<Rightarrow> bool" where
  "is_space c \<longleftrightarrow> c \<in> {CHR '' '', CHR 0x09, CHR 0x0A, CHR 0x0B, CHR 0x0C, CHR 0x0D}"

definition is_digit :: "char \<Rightarrow> bool" where
  "is_digit c \<longleftrightarrow> c \<in> set ''0123456789''"

definition digit_val :: "char \<Rightarrow> nat" where
  "digit_val c = of_char c - of_char CHR ''0''"

fun scan_digits :: "string \<Rightarrow> nat \<Rightarrow> nat" where
  "scan_digits [] acc = acc"
| "scan_digits (c # cs) acc =
     (if is_digit c then scan_digits cs (acc * 10 + digit_val c) else acc)"

definition scan_unsigned :: "string \<Rightarrow> nat option" where
  "scan_unsigned s =
     (case s of [] \<Rightarrow> None
      | c # cs \<Rightarrow> if is_digit c then Some (scan_digits s 0) else None)"

definition scan_int :: "string \<Rightarrow> int option" where
  "scan_int s =
     (case dropWhile is_space s of [] \<Rightarrow> None
      | c # cs \<Rightarrow>
          if c = CHR ''-'' then map_option (\<lambda>n. - int n) (scan_unsigned cs)
          else if c = CHR ''+'' then map_option int (scan_unsigned cs)
          else map_option int (scan_unsigned (c # cs)))"

text \<open>Writing at the start of a file opened for update replaces its leading characters.\<close>

definition overwrite :: "string \<Rightarrow> string \<Rightarrow> string" where
  "overwrite old new = new @ drop (length new) old"

definition high_score_update :: "GameInfo_t \<Rightarrow> record_file \<Rightarrow> int \<times> GameInfo_t \<times> record_file" where
  "high_score_update game file =
     (if high_score_val game = 0 \<or> score game > high_score_val game then
        (case (if opens_rw file then content file else None) of
           Some text \<Rightarrow>
             (let g1 = (case scan_int text of
                          Some v \<Rightarrow> game\<lparr>high_score_val := v\<rparr> | None \<Rightarrow> game)
              in if score g1 > high_score_val g1
                 then (NO_ERROR, g1\<lparr>high_score_val := score g1\<rparr>,
                       file\<lparr>content := Some (overwrite text (print_int (score g1)))\<rparr>)
                 else (NO_ERROR, g1, file))
         | None \<Rightarrow>
             if opens_w file
             then (NO_ERROR, game, file\<lparr>content := Some (print_int (score game))\<rparr>)
             else (ERROR, game, file))
      else (NO_ERROR, game, file))"

section \<open>State machine controller (fsm.c)\<close>

text \<open>
  The static objects of the program: the game info, the active figure, its position, the
  controller state, and the record file the controller reaches through
  \<^verbatim>\<open>high_score_update\<close>. The rendering calls do not change any of them and are left out.
\<close>

record tetris =
  game :: GameInfo_t
  figure :: matrix
  fig_pos :: FigurePos_t
  state :: TetrisState_t
  record_note :: record_file

definition on_start_state :: "tetris \<Rightarrow> UserAction_t \<Rightarrow> nat \<Rightarrow> tetris" where
  "on_start_state s signal random =
     (case signal of
        Start \<Rightarrow> s\<lparr>game := (game s)\<lparr>next_fig := assign_next_figure random\<rparr>, state := SPAWN\<rparr>
      | Terminate \<Rightarrow> s\<lparr>state := GAMEOVER\<rparr>
      | _ \<Rightarrow> s\<lparr>state := START\<rparr>)"

definition on_spawn_state :: "tetris \<Rightarrow> nat \<Rightarrow> tetris" where
  "on_spawn_state s random =
     (case high_score_update (game s) (record_note s) of
        (rc, g, file) \<Rightarrow>
          if rc = NO_ERROR then
            (let fig = copy_next_figure_to_figure g;
                 g' = g\<lparr>next_fig := assign_next_figure random\<rparr>;
                 p = init_figure_position fig
             in s\<lparr>game := g', record_note := file, figure := fig, fig_pos := p,
                  state := (if check_collide (field g') fig p then GAMEOVER else MOVING)\<rparr>)
          else s\<lparr>game := g, record_note := file, state := EXIT_ERROR\<rparr>)"

text \<open>\<^verbatim>\<open>moveup\<close> is an empty stub; \<^verbatim>\<open>pause_game\<close> only talks to the terminal.\<close>

definition moveup :: "tetris \<Rightarrow> tetris" where
  "moveup s = s"

definition pause_game :: "tetris \<Rightarrow> tetris" where
  "pause_game s = s"

text \<open>
  \<^verbatim>\<open>while (!check_collide()) fig_pos->y++;\<close> has no bound of its own, so the loop is a
  partial function: \<open>None\<close> means that it never leaves the loop.
\<close>

partial_function (option) movedown_loop ::
  "matrix \<Rightarrow> matrix \<Rightarrow> FigurePos_t \<Rightarrow> FigurePos_t option" where
  "movedown_loop fld fig p =
     (if \<not> check_collide fld fig p
      then movedown_loop fld fig (p\<lparr>pos_y := pos_y p + 1\<rparr>)
      else Some p)"

declare movedown_loop.simps [code]

definition movedown :: "tetris \<Rightarrow> fault + tetris" where
  "movedown s =
     (case movedown_loop (field (game s)) (figure s) (fig_pos s) of
        None \<Rightarrow> Inl NeverReturns
      | Some p \<Rightarrow> Inr (s\<lparr>fig_pos := p\<lparr>pos_y := pos_y p - 1\<rparr>\<rparr>))"

definition moveright :: "tetris \<Rightarrow> tetris" where
  "moveright s =
     (let p = (fig_pos s)\<lparr>pos_x := pos_x (fig_pos s) + 1\<rparr>
      in if check_collide (field (game s)) (figure s) p
         then s\<lparr>fig_pos := p\<lparr>pos_x := pos_x p - 1\<rparr>\<rparr> else s\<lparr>fig_pos := p\<rparr>)"

definition moveleft :: "tetris \<Rightarrow> tetris" where
  "moveleft s =
     (let p = (fig_pos s)\<lparr>pos_x := pos_x (fig_pos s) - 1\<rparr>
      in if check_collide (field (game s)) (figure s) p
         then s\<lparr>fig_pos := p\<lparr>pos_x := pos_x p + 1\<rparr>\<rparr> else s\<lparr>fig_pos := p\<rparr>)"

definition rotate_action :: "tetris \<Rightarrow> tetris" where
  "rotate_action s =
     (let fig = rotate_figure (figure s)
      in if check_collide (field (game s)) fig (fig_pos s)
         then s\<lparr>figure := (rotate_figure ^^ 3) fig\<rparr> else s\<lparr>figure := fig\<rparr>)"

definition on_moving_state :: "tetris \<Rightarrow> UserAction_t \<Rightarrow> fault + tetris" where
  "on_moving_state s signal =
     (case (case signal of
              Up \<Rightarrow> Inr (moveup s)
            | Down \<Rightarrow> movedown s
            | Right \<Rightarrow> Inr (moveright s)
            | Left \<Rightarrow> Inr (moveleft s)
            | Action \<Rightarrow> Inr (rotate_action s)
            | Pause \<Rightarrow> Inr (pause_game s)
            | Terminate \<Rightarrow> Inr (s\<lparr>state := GAMEOVER\<rparr>)
            | _ \<Rightarrow> Inr s) of
        Inl e \<Rightarrow> Inl e
      | Inr s' \<Rightarrow>
          Inr (if state s' \<noteq> GAMEOVER \<and> state s' \<noteq> EXIT_ERROR
               then s'\<lparr>state := SHIFTING\<rparr> else s'))"

definition on_shifting_state :: "tetris \<Rightarrow> tetris" where
  "on_shifting_state s =
     (let p = (fig_pos s)\<lparr>pos_y := pos_y (fig_pos s) + 1\<rparr>
      in if check_collide (field (game s)) (figure s) p
         then s\<lparr>fig_pos := p\<lparr>pos_y := pos_y p - 1\<rparr>, state := ATTACHING\<rparr>
         else s\<lparr>state := MOVING, fig_pos := p\<lparr>pos_y := pos_y p - 1 + 1\<rparr>\<rparr>)"

definition on_attaching_state :: "tetris \<Rightarrow> fault + tetris" where
  "on_attaching_state s =
     (case attach_figure_to_field (field (game s)) (figure s) (fig_pos s) of
        Inl e \<Rightarrow> Inl e
      | Inr f1 \<Rightarrow>
          (case destruction_of_rows f1 of
             (n_rows, f2) \<Rightarrow>
               (let g = recalculate_stats ((game s)\<lparr>field := f2\<rparr>) n_rows;
                    s1 = s\<lparr>game := g\<rparr>;
                    s2 = (if state s1 = ATTACHING \<and> check_collide (field g) (figure s1) (fig_pos s1)
                          then s1\<lparr>state := SPAWN\<rparr> else s1);
                    s3 = (if level g > MAX_LEVEL then s2\<lparr>state := GAMEOVER\<rparr> else s2)
                in Inr s3)))"

definition on_gameover_state :: "tetris \<Rightarrow> tetris" where
  "on_gameover_state s = s"

definition on_exit_error_state :: "tetris \<Rightarrow> tetris" where
  "on_exit_error_state s = s"

text \<open>
  \<^verbatim>\<open>userInput(action, hold)\<close>: \<^verbatim>\<open>hold\<close> is unused. \<open>random\<close> is what \<^verbatim>\<open>rand()\<close> returns
  if this step calls it (it is called at most once in a step).
\<close>

definition userInput :: "tetris \<Rightarrow> UserAction_t \<Rightarrow> nat \<Rightarrow> fault + tetris" where
  "userInput s action random =
     (case state s of
        START \<Rightarrow> Inr (on_start_state s action random)
      | SPAWN \<Rightarrow> Inr (on_spawn_state s random)
      | MOVING \<Rightarrow> on_moving_state s action
      | SHIFTING \<Rightarrow> Inr (on_shifting_state s)
      | ATTACHING \<Rightarrow> on_attaching_state s
      | GAMEOVER \<Rightarrow> Inr (on_gameover_state s)
      | EXIT_ERROR \<Rightarrow> Inr (on_exit_error_state s))"

section \<open>Notions used to state the properties\<close>

text \<open>
  A set cell \<open>(i, j)\<close> of the figure collides when its absolute coordinate leaves the grid
  or meets a filled cell of the field.
\<close>

definition cell_collides :: "matrix \<Rightarrow> matrix \<Rightarrow> FigurePos_t \<Rightarrow> nat \<Rightarrow> nat \<Rightarrow> bool" where
  "cell_collides fld fig p i j \<longleftrightarrow>
     fig ! i ! j = 1 \<and>
     (pos_x p + int j < 0 \<or> pos_x p + int j \<ge> 10 \<or> pos_y p + int i < 0 \<or> pos_y p + int i \<ge> 20
      \<or> fld ! nat (pos_y p + int i) ! nat (pos_x p + int j) = 1)"

text \<open>The score table of \<^verbatim>\<open>recalculate_stats\<close>, by number of rows cleared at once.\<close>

definition row_score :: "int \<Rightarrow> int" where
  "row_score n = (if n = 1 then 100 else if n = 2 then 300 else if n = 3 then 700 else 1500)"

text \<open>A row is complete when each of its ten cells is 1.\<close>

definition row_complete :: "int list \<Rightarrow> bool" where
  "row_complete r \<longleftrightarrow> (\<forall>j<COLS_MAP. r ! j = 1)"

subsection \<open>Concrete configurations\<close>

text \<open>
  The state \<^verbatim>\<open>init_game\<close> leaves behind when its allocations succeed (\<^verbatim>\<open>calloc\<close> zeroes
  both matrices and the figure); the record file is whatever the environment holds.
\<close>

definition init_game :: "record_file \<Rightarrow> tetris" where
  "init_game file =
     \<lparr>game = \<lparr>field = replicate ROWS_MAP (replicate COLS_MAP 0),
              next_fig = replicate SIDE_OF_FIGURE_SQUARE (replicate SIDE_OF_FIGURE_SQUARE 0),
              score = 0, high_score_val = 0, level = 1, speed = INITIAL_TIMEOUT, pause = 0\<rparr>,
      figure = replicate SIDE_OF_FIGURE_SQUARE (replicate SIDE_OF_FIGURE_SQUARE 0),
      fig_pos = \<lparr>pos_x = 0, pos_y = 0\<rparr>,
      state = START,
      record_note = file\<rparr>"

definition no_record :: record_file where
  "no_record = \<lparr>content = None, opens_rw = True, opens_w = True\<rparr>"

text \<open>The bar on an empty field, one row above the top and resting on the floor.\<close>

definition falling_example :: tetris where
  "falling_example =
     (init_game no_record)\<lparr>figure := figures_choice 0, fig_pos := \<lparr>pos_x = 3, pos_y = - 1\<rparr>,
                            state := SHIFTING\<rparr>"

definition landed_example :: tetris where
  "landed_example =
     (init_game no_record)\<lparr>figure := figures_choice 0, fig_pos := \<lparr>pos_x = 3, pos_y = 18\<rparr>,
                            state := SHIFTING\<rparr>"

text \<open>A field whose rows 3 and 7 are complete, with two cells set in row 5.\<close>

definition rows_3_7_field :: matrix where
  "rows_3_7_field =
     (replicate 20 (replicate 10 0))[3 := replicate 10 1, 5 := [0, 1, 0, 0, 0, 0, 0, 0, 0, 1],
                                    7 := replicate 10 1]"

subsection \<open>Figures\<close>

text \<open>
  The number of all-zero rows at the top of a figure matrix and of all-zero columns at its
  left; cell-wise forms of the figure invariants.
\<close>

definition leading_empty_rows :: "matrix \<Rightarrow> nat" where
  "leading_empty_rows fig = length (takeWhile (\<lambda>i. \<forall>j<4. fig ! i ! j = 0) [0..<4])"

definition leading_empty_cols :: "matrix \<Rightarrow> nat" where
  "leading_empty_cols fig = length (takeWhile (\<lambda>j. \<forall>i<4. fig ! i ! j = 0) [0..<4])"

definition nonneg_cells :: "matrix \<Rightarrow> bool" where
  "nonneg_cells fig \<longleftrightarrow> (\<forall>i<4. \<forall>j<4. 0 \<le> fig ! i ! j)"

definition binary_cells :: "matrix \<Rightarrow> bool" where
  "binary_cells m \<longleftrightarrow> (\<forall>i<4. \<forall>j<4. m ! i ! j = 0 \<or> m ! i ! j = 1)"

definition has_set_cell :: "matrix \<Rightarrow> bool" where
  "has_set_cell m \<longleftrightarrow> (\<exists>i<4. \<exists>j<4. m ! i ! j = 1)"

subsection \<open>The record file\<close>






subsection \<open>Configurations of the controller\<close>

text \<open>The bar above an empty field, and above a field with four filled cells in row 10.\<close>

definition moving_example :: tetris where
  "moving_example =
     (init_game no_record)\<lparr>figure := figures_choice 0, fig_pos := \<lparr>pos_x = 3, pos_y = - 1\<rparr>,
                            state := MOVING\<rparr>"

definition overhang_example :: tetris where
  "overhang_example =
     (init_game no_record)
       \<lparr>game := (game (init_game no_record))
                  \<lparr>field := (replicate 20 (replicate 10 0))[10 := [0, 0, 0, 1, 1, 1, 1, 0, 0, 0]]\<rparr>,
        figure := figures_choice 0, fig_pos := \<lparr>pos_x = 3, pos_y = - 1\<rparr>, state := MOVING\<rparr>"

text \<open>
  \<^verbatim>\<open>game_loop\<close> calls \<^verbatim>\<open>userInput\<close> once per pass; \<open>play\<close> runs the controller over a list
  of actions, each with the value \<^verbatim>\<open>rand()\<close> would return in that step.
\<close>

fun play :: "tetris \<Rightarrow> (UserAction_t \<times> nat) list \<Rightarrow> fault + tetris" where
  "play s [] = Inr s"
| "play s ((action, random) # rest) =
     (case userInput s action random of Inl e \<Rightarrow> Inl e | Inr s' \<Rightarrow> play s' rest)"

text \<open>
  A game of five squares (\<^verbatim>\<open>rand()\<close> returns 1 throughout). Each square is spawned, moved
  \<open>n\<close> columns to one side with a gravity step after each move, dropped, and shifted once
  more, which finds it at rest. The first four are attached side by side in columns 0 to 7 of
  rows 18 and 19; the fifth comes to rest in columns 8 and 9.
\<close>

definition place_square :: "UserAction_t \<Rightarrow> nat \<Rightarrow> (UserAction_t \<times> nat) list" where
  "place_square dir n =
     (No_signal, 1) # concat (replicate n [(dir, 1), (No_signal, 1)])
       @ [(Down, 1), (No_signal, 1)]"

definition five_squares :: "(UserAction_t \<times> nat) list" where
  "five_squares =
     (Start, 1) # place_square Left 3 @ [(No_signal, 1)]
       @ place_square Left 1 @ [(No_signal, 1)]
       @ place_square Right 1 @ [(No_signal, 1)]
       @ place_square Right 3 @ [(No_signal, 1)]
       @ place_square Right 5"

text \<open>The configuration that game ends in: the controller is about to attach the fifth square.\<close>

definition squares_example :: tetris where
  "squares_example =
     \<lparr>game = \<lparr>field = (replicate 20 (replicate 10 0))
                        [18 := [1, 1, 1, 1, 1, 1, 1, 1, 0, 0],
                         19 := [1, 1, 1, 1, 1, 1, 1, 1, 0, 0]],
              next_fig = figures_choice 1,
              score = 0, high_score_val = 0, level = 1, speed = 500, pause = 0\<rparr>,
      figure = figures_choice 1,
      fig_pos = \<lparr>pos_x = 7, pos_y = 17\<rparr>,
      state = ATTACHING,
      record_note = \<lparr>content = Some ''0'', opens_rw = True, opens_w = True\<rparr>\<rparr>"

section \<open>Rotation\<close>

lemma rotate_figure_nth:
  "i < 4 \<Longrightarrow> j < 4 \<Longrightarrow> rotate_figure m ! i ! j = m ! j ! (3 - i)"
  by (simp add: rotate_figure_def)

lemma is_figure_rotate: "is_figure (rotate_figure m)"
  by (auto simp: is_figure_def rotate_figure_def)

lemma is_figure_eqI:
  assumes "is_figure a" "is_figure b"
    and cells: "\<And>i j. i < 4 \<Longrightarrow> j < 4 \<Longrightarrow> a ! i ! j = b ! i ! j"
  shows "a = b"
proof (rule nth_equalityI)
  show "length a = length b"
    using assms by (simp add: is_figure_def)
next
  fix i assume i: "i < length a"
  then have i4: "i < 4"
    using assms(1) by (simp add: is_figure_def)
  have la: "length (a ! i) = 4"
    using assms(1) i by (simp add: is_figure_def)
  have lb: "length (b ! i) = 4"
    using assms(2) i4 by (simp add: is_figure_def)
  show "a ! i = b ! i"
    by (rule nth_equalityI) (use la lb i4 cells in auto)
qed

lemma rotate_figure_four_times:
  assumes "is_figure m"
  shows "rotate_figure (rotate_figure (rotate_figure (rotate_figure m))) = m"
proof (rule is_figure_eqI)
  fix i j :: nat assume "i < 4" "j < 4"
  then show "rotate_figure (rotate_figure (rotate_figure (rotate_figure m))) ! i ! j = m ! i ! j"
    by (simp add: rotate_figure_nth)
qed (simp_all add: is_figure_rotate assms)

lemma less_7_cases:
  "n < 7 \<Longrightarrow> n = 0 \<or> n = 1 \<or> n = 2 \<or> n = 3 \<or> n = 4 \<or> n = 5 \<or> n = (6::nat)"
  by arith

lemma less_4_cases: "n < 4 \<Longrightarrow> n = 0 \<or> n = 1 \<or> n = 2 \<or> n = (3::nat)"
  by arith

lemma is_figure_figures_choice: "n < 7 \<Longrightarrow> is_figure (figures_choice n)"
  by (drule less_7_cases) (auto simp: figures_choice_def all_figures_def is_figure_def)

lemma is_figure_funpow_rotate: "is_figure m \<Longrightarrow> is_figure ((rotate_figure ^^ k) m)"
  by (cases k) (simp_all add: is_figure_rotate)

text \<open>
  C6. \<^verbatim>\<open>rotate_figure\<close> maps every 4 by 4 matrix to the matrix with
  \<open>new[i][j] = old[j][3 - i]\<close>, and four applications give the matrix back; this covers each
  of the seven shapes of \<^verbatim>\<open>figures_choice\<close> after any number of initial rotations.
\<close>

theorem rotate_figure_order_four:
  "(is_figure m \<longrightarrow>
      (\<forall>i<4. \<forall>j<4. rotate_figure m ! i ! j = m ! j ! (3 - i)) \<and>
      is_figure (rotate_figure m) \<and>
      (rotate_figure ^^ 4) m = m) \<and>
   (\<forall>n<7. \<forall>k. (rotate_figure ^^ 4) ((rotate_figure ^^ k) (figures_choice n))
               = (rotate_figure ^^ k) (figures_choice n))"
proof -
  have four: "(rotate_figure ^^ 4) a = a" if "is_figure a" for a
    using rotate_figure_four_times [OF that] by (simp add: numeral_eq_Suc)
  show ?thesis
    by (auto simp: rotate_figure_nth is_figure_rotate four
          is_figure_funpow_rotate is_figure_figures_choice simp del: funpow.simps)
qed

theorem rotate_figure_order_four_witness:
  "is_figure (figures_choice 2) \<and>
   rotate_figure (figures_choice 2) ! 0 ! 1 = figures_choice 2 ! 1 ! (3 - 0) \<and>
   (rotate_figure ^^ 4) (figures_choice 2) = figures_choice 2 \<and>
   (rotate_figure ^^ 4) ((rotate_figure ^^ 3) (figures_choice 6))
     = (rotate_figure ^^ 3) (figures_choice 6)"
proof -
  have fig: "is_figure (figures_choice 2)"
    by (simp add: is_figure_figures_choice)
  show ?thesis
    using fig rotate_figure_order_four [of "figures_choice 2"] by simp
qed

section \<open>Collision\<close>

lemma ex_from_split:
  "(\<exists>k. j \<le> k \<and> k < n \<and> P k) \<longleftrightarrow> (j < (n::nat) \<and> P j) \<or> (\<exists>k. j + 1 \<le> k \<and> k < n \<and> P k)"
proof -
  have "\<And>k. j \<le> k \<longleftrightarrow> k = j \<or> j + 1 \<le> k" by auto
  then show ?thesis by auto
qed

lemma check_collide_j_iff:
  "check_collide_j fld fig p i j rc \<longleftrightarrow>
     rc \<or> (\<exists>k. j \<le> k \<and> k < 4 \<and> cell_collides fld fig p i k)"
proof (induction fld fig p i j rc rule: check_collide_j.induct)
  case (1 fld fig p i j rc)
  show ?case
  proof (cases "rc = False \<and> j < SIDE_OF_FIGURE_SQUARE")
    case True
    then have j: "j < 4" and rc: "\<not> rc" by auto
    have step: "check_collide_j fld fig p i j rc
        = check_collide_j fld fig p i (j + 1) (cell_collides fld fig p i j)"
      using j rc by (subst check_collide_j.simps) (simp add: cell_collides_def Let_def disj_ac)
    have body: "(if fig ! i ! j = 1 then
             (let y = pos_y p + int i; x = pos_x p + int j in
              if x < 0 \<or> y < 0 \<or> x \<ge> int COLS_MAP \<or> y \<ge> int ROWS_MAP
                 \<or> fld ! nat y ! nat x = 1
              then True else rc)
           else rc) = cell_collides fld fig p i j"
      using rc by (auto simp: cell_collides_def Let_def)
    have ih: "check_collide_j fld fig p i (j + 1) (cell_collides fld fig p i j) \<longleftrightarrow>
         cell_collides fld fig p i j
         \<or> (\<exists>k. j + 1 \<le> k \<and> k < 4 \<and> cell_collides fld fig p i k)"
      using "1.IH"[OF True] unfolding body .
    show ?thesis
      unfolding step ih using rc j by (subst (2) ex_from_split) simp
  next
    case False
    then show ?thesis by (subst check_collide_j.simps) auto
  qed
qed

lemma check_collide_i_iff:
  "check_collide_i fld fig p i rc \<longleftrightarrow>
     rc \<or> (\<exists>k. i \<le> k \<and> k < 4 \<and> (\<exists>j<4. cell_collides fld fig p k j))"
proof (induction fld fig p i rc rule: check_collide_i.induct)
  case (1 fld fig p i rc)
  show ?case
  proof (cases "rc = False \<and> i < SIDE_OF_FIGURE_SQUARE")
    case True
    then have i: "i < 4" and rc: "\<not> rc" by auto
    have step: "check_collide_i fld fig p i rc =
        check_collide_i fld fig p (i + 1) (check_collide_j fld fig p i 0 rc)"
      using i rc by (subst check_collide_i.simps) simp
    have row: "check_collide_j fld fig p i 0 rc \<longleftrightarrow> (\<exists>j<4. cell_collides fld fig p i j)"
      using rc by (simp add: check_collide_j_iff)
    have ih: "check_collide_i fld fig p (i + 1) (check_collide_j fld fig p i 0 rc) \<longleftrightarrow>
        (\<exists>j<4. cell_collides fld fig p i j) \<or>
        (\<exists>k. i + 1 \<le> k \<and> k < 4 \<and> (\<exists>j<4. cell_collides fld fig p k j))"
      using "1.IH"[OF True] unfolding row .
    show ?thesis
      unfolding step ih using rc i by (subst (2) ex_from_split) simp
  next
    case False
    then show ?thesis by (subst check_collide_i.simps) auto
  qed
qed

lemma check_collide_iff:
  "check_collide fld fig p \<longleftrightarrow> (\<exists>i<4. \<exists>j<4. cell_collides fld fig p i j)"
  by (simp add: check_collide_def check_collide_i_iff)

text \<open>
  C5. \<^verbatim>\<open>check_collide\<close> answers true exactly when some cell \<open>(i, j)\<close> of the figure matrix
  that equals 1 has its absolute coordinate \<open>(y + i, x + j)\<close> at a column below 0 or from 10
  on, at a row below 0 or from 20 on, or on a field cell equal to 1. Cells that are not set
  do not occur in the condition, whatever the figure, the position and the field.
\<close>

theorem check_collide_set_cells:
  "check_collide fld fig p \<longleftrightarrow>
     (\<exists>i<4. \<exists>j<4. fig ! i ! j = 1 \<and>
        (let r = pos_y p + int i; c = pos_x p + int j
         in c < 0 \<or> c \<ge> 10 \<or> r < 0 \<or> r \<ge> 20 \<or> fld ! nat r ! nat c = 1))"
  by (simp add: check_collide_iff cell_collides_def Let_def)

section \<open>Clearing rows\<close>

lemma check_finished_row_loop_0: "check_finished_row_loop row j 0 = 0"
  by (subst check_finished_row_loop.simps) simp

lemma check_finished_row_loop_1:
  "check_finished_row_loop row j 1 = (if \<forall>k. j \<le> k \<and> k < 10 \<longrightarrow> row ! k = 1 then 1 else 0)"
proof (induction "10 - j" arbitrary: j)
  case 0
  then show ?case by (subst check_finished_row_loop.simps) simp
next
  case (Suc n)
  then have j: "j < 10" and n: "n = 10 - (j + 1)" by auto
  have split: "(\<forall>k. j \<le> k \<and> k < 10 \<longrightarrow> row ! k = 1) \<longleftrightarrow>
        row ! j = 1 \<and> (\<forall>k. j + 1 \<le> k \<and> k < 10 \<longrightarrow> row ! k = 1)"
    using ex_from_split [of j 10 "\<lambda>k. row ! k \<noteq> 1"] j by auto
  show ?case
  proof (cases "row ! j = 1")
    case True
    then show ?thesis
      using j Suc.hyps(1) [OF n] split by (subst check_finished_row_loop.simps) simp
  next
    case False
    then show ?thesis
      using j split by (subst check_finished_row_loop.simps) (simp add: check_finished_row_loop_0)
  qed
qed

lemma check_finished_row_iff: "check_finished_row row \<noteq> 0 \<longleftrightarrow> row_complete row"
  by (simp add: check_finished_row_def check_finished_row_loop_1 row_complete_def)

lemma copy_cell_step:
  assumes "length src = length row" "n < length row"
  shows "(take n src @ drop n row)[n := src ! n] = take (Suc n) src @ drop (Suc n) row"
  using assms
  by (simp add: list_update_append take_Suc_conv_app_nth upd_conv_take_nth_drop)

lemma shift_cells_prefix:
  assumes i: "i < length fld" and row: "length (fld ! i) = 10"
    and src: "length src = 10" "i > 0 \<Longrightarrow> src = fld ! (i - 1)" "i = 0 \<Longrightarrow> src = replicate 10 0"
    and n: "n \<le> 10"
  shows "fold (\<lambda>j f. f[i := (f ! i)[j := (if i > 0 then f ! (i - 1) ! j else 0)]]) [0..<n] fld
         = fld[i := take n src @ drop n (fld ! i)]"
    (is "fold ?F [0..<n] fld = _")
  using n
proof (induction n)
  case 0
  then show ?case by simp
next
  case (Suc n)
  then have n: "n < 10" by simp
  let ?f = "fld[i := take n src @ drop n (fld ! i)]"
  have cell: "(if i > 0 then ?f ! (i - 1) ! n else 0) = src ! n"
    using src n i by (cases "i > 0") simp_all
  have ih: "fold ?F [0..<n] fld = ?f"
    using Suc by simp
  have "fold ?F [0..<Suc n] fld = ?F n (fold ?F [0..<n] fld)"
    by simp
  also have "\<dots> = ?F n ?f"
    by (simp only: ih)
  also have "\<dots> = ?f[i := (take n src @ drop n (fld ! i))[n := src ! n]]"
    using i by (simp only: cell) simp
  also have "\<dots> = fld[i := take (Suc n) src @ drop (Suc n) (fld ! i)]"
    using n row src(1) by (simp add: copy_cell_step)
  finally show ?case .
qed

lemma shift_cells_row:
  assumes "i < length fld" "length (fld ! i) = 10" "i > 0 \<Longrightarrow> length (fld ! (i - 1)) = 10"
  shows "shift_cells fld i = fld[i := (if i > 0 then fld ! (i - 1) else replicate 10 0)]"
proof -
  let ?src = "if i > 0 then fld ! (i - 1) else replicate 10 0"
  have "shift_cells fld i = fld[i := take 10 ?src @ drop 10 (fld ! i)]"
    unfolding shift_cells_def COLS_MAP_def
    by (rule shift_cells_prefix) (use assms in auto)
  then show ?thesis using assms by auto
qed

lemma shift_rows_loop_collapse:
  assumes "row < length fld" "\<forall>i\<le>row. length (fld ! i) = 10"
  shows "shift_rows_loop row fld = replicate 10 0 # take row fld @ drop (Suc row) fld"
  using assms
proof (induction row arbitrary: fld)
  case 0
  then show ?case
    by (cases fld) (simp_all add: shift_cells_row)
next
  case (Suc row)
  let ?f = "fld[Suc row := fld ! row]"
  have cells: "shift_cells fld (Suc row) = ?f"
    using Suc.prems by (simp add: shift_cells_row)
  have "shift_rows_loop row ?f = replicate 10 0 # take row ?f @ drop (Suc row) ?f"
    using Suc.prems by (intro Suc.IH) (auto simp: nth_list_update)
  also have "take row ?f = take row fld"
    by simp
  also have "drop (Suc row) ?f = fld ! row # drop (Suc (Suc row)) fld"
    using Suc.prems(1) Cons_nth_drop_Suc [of "Suc row" ?f] by simp
  finally show ?case
    using Suc.prems(1) by (simp add: cells take_Suc_conv_app_nth)
qed

lemma destruction_fold:
  assumes fld: "is_field fld" and n: "n \<le> 20"
  shows "fold (\<lambda>i (n_rows, f).
             if check_finished_row (f ! i) \<noteq> 0 then (n_rows + 1, shift_rows_down i f)
             else (n_rows, f)) [0..<n] (0, fld)
         = (int (length (filter row_complete (take n fld))),
            (replicate (length (filter row_complete (take n fld))) (replicate 10 0)
             @ filter (\<lambda>r. \<not> row_complete r) (take n fld)) @ drop n fld)"
    (is "fold ?F [0..<n] _ = _")
  using n
proof (induction n)
  case 0
  then show ?case by simp
next
  case (Suc n)
  define k where "k = length (filter row_complete (take n fld))"
  define A where "A = replicate k (replicate 10 (0::int))
                        @ filter (\<lambda>r. \<not> row_complete r) (take n fld)"
  from Suc have n: "n < 20" by simp
  have len: "length fld = 20" and rows: "\<And>r. r \<in> set fld \<Longrightarrow> length r = 10"
    using fld by (simp_all add: is_field_def)
  have ih: "fold ?F [0..<n] (0, fld) = (int k, A @ drop n fld)"
    using Suc by (simp add: k_def A_def)
  have lenA: "length A = n"
    using sum_length_filter_compl [of row_complete "take n fld"] n len
    by (simp add: A_def k_def)
  have "(A @ drop n fld) ! (length A + 0) = drop n fld ! 0"
    by (rule nth_append_length_plus)
  also have "drop n fld ! 0 = fld ! n"
    using n len by simp
  finally have nth_n: "(A @ drop n fld) ! n = fld ! n"
    by (simp only: lenA add_0_right)
  have take_Suc: "take (Suc n) fld = take n fld @ [fld ! n]"
    using n len by (simp add: take_Suc_conv_app_nth)
  have drop_n: "drop n fld = fld ! n # drop (Suc n) fld"
    using n len by (simp add: Cons_nth_drop_Suc)
  have setA: "set A \<subseteq> insert (replicate 10 0) (set fld)"
    by (auto simp: A_def dest: in_set_takeD)
  have rowsA: "\<forall>i\<le>n. length ((A @ drop n fld) ! i) = 10"
  proof (intro allI impI)
    fix i assume "i \<le> n"
    then have "i < length (A @ drop n fld)"
      using lenA n len by simp
    then have "(A @ drop n fld) ! i \<in> set (A @ drop n fld)"
      by (rule nth_mem)
    also have "\<dots> \<subseteq> insert (replicate 10 0) (set fld)"
      using setA by (auto dest: in_set_dropD)
    finally show "length ((A @ drop n fld) ! i) = 10"
      using rows by auto
  qed
  have step: "fold ?F [0..<Suc n] (0, fld) = ?F n (int k, A @ drop n fld)"
    by (simp add: ih)
  show ?case
  proof (cases "row_complete (fld ! n)")
    case True
    have "shift_rows_down n (A @ drop n fld)
          = replicate 10 0 # take n (A @ drop n fld) @ drop (Suc n) (A @ drop n fld)"
      unfolding shift_rows_down_def
      using rowsA lenA n len by (intro shift_rows_loop_collapse) simp_all
    also have "\<dots> = (replicate 10 0 # A) @ drop (Suc n) fld"
      using lenA by simp
    finally have shift: "shift_rows_down n (A @ drop n fld)
         = (replicate 10 0 # A) @ drop (Suc n) fld" .
    have "?F n (int k, A @ drop n fld) = (int k + 1, (replicate 10 0 # A) @ drop (Suc n) fld)"
      using True by (simp add: nth_n check_finished_row_iff shift)
    then show ?thesis
      unfolding step using True by (simp add: take_Suc A_def k_def)
  next
    case False
    have "?F n (int k, A @ drop n fld) = (int k, (A @ [fld ! n]) @ drop (Suc n) fld)"
      using False by (simp add: nth_n check_finished_row_iff drop_n [symmetric])
    then show ?thesis
      unfolding step using False by (simp add: take_Suc A_def k_def)
  qed
qed

lemma destruction_of_rows_eq:
  assumes "is_field fld"
  shows "destruction_of_rows fld =
          (int (length (filter row_complete fld)),
           replicate (length (filter row_complete fld)) (replicate 10 0)
           @ filter (\<lambda>r. \<not> row_complete r) fld)"
  using destruction_fold [OF assms, of 20] assms
  by (simp add: destruction_of_rows_def is_field_def)

lemma filter_none: "(\<And>i. i < length xs \<Longrightarrow> \<not> P (xs ! i)) \<Longrightarrow> filter P xs = []"
  by (auto simp: filter_empty_conv in_set_conv_nth)

lemma filter_all: "(\<And>i. i < length xs \<Longrightarrow> P (xs ! i)) \<Longrightarrow> filter P xs = xs"
  by (auto simp: filter_id_conv in_set_conv_nth)

lemma rows_3_7_split:
  assumes len: "length fld = 20"
    and full: "\<And>i. i < 20 \<Longrightarrow> row_complete (fld ! i) \<longleftrightarrow> i = 3 \<or> i = 7"
  shows "filter row_complete fld = [fld ! 3, fld ! 7]"
    and "filter (\<lambda>r. \<not> row_complete r) fld = take 3 fld @ take 3 (drop 4 fld) @ drop 8 fld"
proof -
  have "fld = take 3 fld @ fld ! 3 # drop 4 fld"
    using len id_take_nth_drop [of 3 fld] by simp
  moreover have "drop 4 fld = take 3 (drop 4 fld) @ fld ! 7 # drop 8 fld"
    using len id_take_nth_drop [of 3 "drop 4 fld"] by simp
  ultimately have dec: "fld = take 3 fld @ fld ! 3 # take 3 (drop 4 fld) @ fld ! 7 # drop 8 fld"
    by simp
  have a: "filter row_complete (take 3 fld) = []"
    by (rule filter_none) (use len full in auto)
  have b: "filter row_complete (take 3 (drop 4 fld)) = []"
    by (rule filter_none) (use len full in auto)
  have c: "filter row_complete (drop 8 fld) = []"
    by (rule filter_none) (use len full in auto)
  have a': "filter (\<lambda>r. \<not> row_complete r) (take 3 fld) = take 3 fld"
    by (rule filter_all) (use len full in auto)
  have b': "filter (\<lambda>r. \<not> row_complete r) (take 3 (drop 4 fld)) = take 3 (drop 4 fld)"
    by (rule filter_all) (use len full in auto)
  have c': "filter (\<lambda>r. \<not> row_complete r) (drop 8 fld) = drop 8 fld"
    by (rule filter_all) (use len full in auto)
  have r3: "row_complete (fld ! 3)" and r7: "row_complete (fld ! 7)"
    using full by simp_all
  show "filter row_complete fld = [fld ! 3, fld ! 7]"
    by (subst dec) (simp add: a b c r3 r7)
  show "filter (\<lambda>r. \<not> row_complete r) fld = take 3 fld @ take 3 (drop 4 fld) @ drop 8 fld"
    by (subst dec) (simp add: a' b' c' r3 r7)
qed

text \<open>
  C3. On a field of 20 rows of 10 cells, \<^verbatim>\<open>destruction_of_rows\<close> returns the number of
  complete rows, and the field it leaves is that many rows of zeros followed by the rows
  that were not complete, in their order. With rows 3 and 7 the only complete ones it
  returns 2 and leaves two zero rows, rows 0 to 2, rows 4 to 6 and rows 8 to 19.
\<close>

theorem destruction_of_rows_collapse:
  "is_field fld \<longrightarrow>
     destruction_of_rows fld =
       (int (length (filter row_complete fld)),
        replicate (length (filter row_complete fld)) (replicate 10 0)
        @ filter (\<lambda>r. \<not> row_complete r) fld) \<and>
     ((\<forall>i<20. row_complete (fld ! i) \<longleftrightarrow> i = 3 \<or> i = 7) \<longrightarrow>
        destruction_of_rows fld =
          (2, replicate 10 0 # replicate 10 0 # take 3 fld @ take 3 (drop 4 fld) @ drop 8 fld))"
proof (intro impI conjI)
  assume fld: "is_field fld"
  show gen: "destruction_of_rows fld =
       (int (length (filter row_complete fld)),
        replicate (length (filter row_complete fld)) (replicate 10 0)
        @ filter (\<lambda>r. \<not> row_complete r) fld)"
    by (rule destruction_of_rows_eq [OF fld])
  assume "\<forall>i<20. row_complete (fld ! i) \<longleftrightarrow> i = 3 \<or> i = 7"
  then have full: "\<And>i. i < 20 \<Longrightarrow> row_complete (fld ! i) \<longleftrightarrow> i = 3 \<or> i = 7"
    by blast
  have len: "length fld = 20"
    using fld by (simp add: is_field_def)
  have complete: "filter row_complete fld = [fld ! 3, fld ! 7]"
    using len full by (rule rows_3_7_split)
  have others: "filter (\<lambda>r. \<not> row_complete r) fld = take 3 fld @ take 3 (drop 4 fld) @ drop 8 fld"
    using len full by (rule rows_3_7_split)
  show "destruction_of_rows fld =
          (2, replicate 10 0 # replicate 10 0 # take 3 fld @ take 3 (drop 4 fld) @ drop 8 fld)"
    by (simp add: gen complete others)
qed

theorem destruction_of_rows_collapse_witness:
  "is_field rows_3_7_field \<and>
   map row_complete rows_3_7_field
     = [False, False, False, True, False, False, False, True, False, False,
        False, False, False, False, False, False, False, False, False, False] \<and>
   destruction_of_rows rows_3_7_field =
     (2, (replicate 20 (replicate 10 0))[6 := [0, 1, 0, 0, 0, 0, 0, 0, 0, 1]])"
proof -
  have fld: "is_field rows_3_7_field"
    by code_simp
  have full: "\<forall>i<20. row_complete (rows_3_7_field ! i) \<longleftrightarrow> i = 3 \<or> i = 7"
    by code_simp
  have flags: "map row_complete rows_3_7_field
     = [False, False, False, True, False, False, False, True, False, False,
        False, False, False, False, False, False, False, False, False, False]"
    by code_simp
  have rows: "replicate 10 0 # replicate 10 0 # take 3 rows_3_7_field
          @ take 3 (drop 4 rows_3_7_field) @ drop 8 rows_3_7_field
        = (replicate 20 (replicate 10 0))[6 := [0, 1, 0, 0, 0, 0, 0, 0, 0, 1]]"
    by code_simp
  have "destruction_of_rows rows_3_7_field =
          (2, replicate 10 0 # replicate 10 0 # take 3 rows_3_7_field
                @ take 3 (drop 4 rows_3_7_field) @ drop 8 rows_3_7_field)"
    using fld full destruction_of_rows_collapse [of rows_3_7_field] by blast
  then show ?thesis
    using fld flags by (simp only: rows simp_thms)
qed

section \<open>Score, level and speed\<close>

text \<open>
  The arithmetic of \<^verbatim>\<open>recalculate_stats\<close> stays in the range of \<^verbatim>\<open>int\<close> for every score
  from 0 up to 1500 below the largest \<^verbatim>\<open>int\<close>, so that the integers of the model are those
  of the program there.
\<close>

lemma recalculate_stats_c_int:
  assumes "0 \<le> score g" "score g + 1500 < 2 ^ 31" "n \<in> {1, 2, 3, 4}"
  shows "c_int (score (recalculate_stats g n)) \<and> c_int (level (recalculate_stats g n)) \<and>
         c_int ((level (recalculate_stats g n) - 1) * 30) \<and>
         c_int (speed (recalculate_stats g n))"
  using assms
  by (auto simp: recalculate_stats_def c_div_def c_int_def Let_def)

text \<open>
  C4. For 1, 2, 3, 4 rows \<^verbatim>\<open>recalculate_stats\<close> adds 100, 300, 700, 1500 to the score,
  sets the level to 1 plus the score divided by 600 (the C division, which is the floor
  for a score that is not negative) and the speed to 500 minus 30 for each level above 1,
  and leaves the rest of the game info alone; for 0 rows it changes nothing. From score 0
  the calls with 1, 2, 3 and 4 rows end at score 2600 and level 5.
\<close>

theorem recalculate_stats_table:
  "recalculate_stats g 0 = g \<and>
   (n \<in> {1, 2, 3, 4} \<longrightarrow>
      (let sc = score g + row_score n; lv = 1 + c_div sc 600
       in recalculate_stats g n = g\<lparr>score := sc, level := lv, speed := 500 - (lv - 1) * 30\<rparr>
          \<and> (0 \<le> sc \<longrightarrow> lv = 1 + sc div 600))) \<and>
   (score g = 0 \<longrightarrow>
      score (recalculate_stats (recalculate_stats (recalculate_stats
               (recalculate_stats g 1) 2) 3) 4) = 2600 \<and>
      level (recalculate_stats (recalculate_stats (recalculate_stats
               (recalculate_stats g 1) 2) 3) 4) = 5)"
  by (auto simp: recalculate_stats_def row_score_def c_div_def Let_def)

theorem recalculate_stats_table_witness:
  "(3::int) \<in> {1, 2, 3, 4} \<and>
   recalculate_stats (game (init_game no_record)) 3
     = (game (init_game no_record))\<lparr>score := 700, level := 2, speed := 470\<rparr> \<and>
   score (game (init_game no_record)) = 0 \<and>
   score (recalculate_stats (recalculate_stats (recalculate_stats
            (recalculate_stats (game (init_game no_record)) 1) 2) 3) 4) = 2600 \<and>
   level (recalculate_stats (recalculate_stats (recalculate_stats
            (recalculate_stats (game (init_game no_record)) 1) 2) 3) 4) = 5"
  using recalculate_stats_table [of "game (init_game no_record)" 3]
  by (simp add: init_game_def row_score_def c_div_def Let_def)

section \<open>The controller\<close>

text \<open>
  C7. A step in state SHIFTING tests the position one row lower. If it collides, the position
  stays and the state becomes ATTACHING; otherwise the y offset grows by one and the state
  becomes MOVING. Nothing else changes: field, figure, x offset and game info are those of
  the state before.
\<close>

theorem on_shifting_state_step:
  "state s = SHIFTING \<longrightarrow>
     userInput s action random =
       (if check_collide (field (game s)) (figure s)
             ((fig_pos s)\<lparr>pos_y := pos_y (fig_pos s) + 1\<rparr>)
        then Inr (s\<lparr>state := ATTACHING\<rparr>)
        else Inr (s\<lparr>fig_pos := (fig_pos s)\<lparr>pos_y := pos_y (fig_pos s) + 1\<rparr>,
                    state := MOVING\<rparr>))"
  by (simp add: userInput_def on_shifting_state_def Let_def)

theorem on_shifting_state_step_witness:
  "state falling_example = SHIFTING \<and>
   userInput falling_example No_signal 0
     = Inr (falling_example\<lparr>fig_pos := \<lparr>pos_x = 3, pos_y = 0\<rparr>, state := MOVING\<rparr>) \<and>
   state landed_example = SHIFTING \<and>
   userInput landed_example No_signal 0 = Inr (landed_example\<lparr>state := ATTACHING\<rparr>)"
proof -
  have free: "\<not> check_collide (field (game falling_example)) (figure falling_example)
                  ((fig_pos falling_example)\<lparr>pos_y := pos_y (fig_pos falling_example) + 1\<rparr>)"
    by code_simp
  have hit: "check_collide (field (game landed_example)) (figure landed_example)
                  ((fig_pos landed_example)\<lparr>pos_y := pos_y (fig_pos landed_example) + 1\<rparr>)"
    by code_simp
  have a: "state falling_example = SHIFTING" "state landed_example = SHIFTING"
    by (simp_all add: falling_example_def landed_example_def)
  have p: "(fig_pos falling_example)\<lparr>pos_y := pos_y (fig_pos falling_example) + 1\<rparr>
             = \<lparr>pos_x = 3, pos_y = 0\<rparr>"
    by (simp add: falling_example_def)
  show ?thesis
    using on_shifting_state_step [of falling_example No_signal 0]
      on_shifting_state_step [of landed_example No_signal 0] free hit a
    by (simp add: p)
qed

section \<open>Attaching the figure\<close>

lemma set_attach_targets:
  "set (attach_targets fig p) =
     {(pos_y p + int i, pos_x p + int j) | i j. i < 4 \<and> j < 4 \<and> fig ! i ! j \<noteq> 0}"
  by (auto simp: attach_targets_def Let_def split: if_splits)

lemma field_set_in_grid:
  assumes "0 \<le> y" "y < 20" "0 \<le> x" "x < 10"
  shows "field_set fld y x = Inr (fld[nat y := (fld ! nat y)[nat x := 1]])"
  using assms by (simp add: field_set_def)

lemma is_field_update:
  assumes "is_field fld" "r < 20"
  shows "is_field (fld[r := (fld ! r)[c := v]])"
proof -
  have "set (fld[r := (fld ! r)[c := v]]) \<subseteq> insert ((fld ! r)[c := v]) (set fld)"
    by (rule set_update_subset_insert)
  moreover have "length ((fld ! r)[c := v]) = 10"
    using assms by (simp add: is_field_def)
  ultimately show ?thesis
    using assms by (auto simp: is_field_def)
qed

lemma binary_update:
  assumes "binary fld" "r < length fld"
  shows "binary (fld[r := (fld ! r)[c := 1]])"
proof -
  have rows: "set (fld[r := (fld ! r)[c := 1]]) \<subseteq> insert ((fld ! r)[c := 1]) (set fld)"
    by (rule set_update_subset_insert)
  have cells: "set ((fld ! r)[c := 1]) \<subseteq> insert 1 (set (fld ! r))"
    by (rule set_update_subset_insert)
  have "fld ! r \<in> set fld"
    using assms(2) by simp
  then show ?thesis
    using assms(1) rows cells unfolding binary_def by blast
qed

lemma nth_field_update:
  assumes "is_field fld" "r < 20" "c < 10" "r' < 20" "c' < 10"
  shows "fld[r := (fld ! r)[c := v]] ! r' ! c' = (if r' = r \<and> c' = c then v else fld ! r' ! c')"
  using assms by (auto simp: is_field_def nth_list_update)

lemma write_cells_in_grid:
  assumes "is_field fld" "\<forall>(y, x) \<in> set cs. 0 \<le> y \<and> y < 20 \<and> 0 \<le> x \<and> x < 10"
  shows "\<exists>fld'. write_cells fld cs = Inr fld' \<and> is_field fld' \<and> (binary fld \<longrightarrow> binary fld') \<and>
           (\<forall>r<20. \<forall>c<10. fld' ! r ! c = (if (int r, int c) \<in> set cs then 1 else fld ! r ! c))"
  using assms
proof (induction cs arbitrary: fld)
  case Nil
  then show ?case by simp
next
  case (Cons a cs)
  obtain y x where a: "a = (y, x)" by (cases a)
  have yx: "0 \<le> y" "y < 20" "0 \<le> x" "x < 10"
    using Cons.prems(2) a by auto
  let ?f = "fld[nat y := (fld ! nat y)[nat x := 1]]"
  have f1: "is_field ?f"
    using Cons.prems(1) yx by (intro is_field_update) auto
  have b1: "binary fld \<Longrightarrow> binary ?f"
    using Cons.prems(1) yx by (intro binary_update) (auto simp: is_field_def)
  obtain fld' where w: "write_cells ?f cs = Inr fld'" and f': "is_field fld'"
    and b': "binary ?f \<longrightarrow> binary fld'"
    and cells: "\<forall>r<20. \<forall>c<10. fld' ! r ! c = (if (int r, int c) \<in> set cs then 1 else ?f ! r ! c)"
    using Cons.IH [OF f1] Cons.prems(2) by auto
  have "write_cells fld (a # cs) = Inr fld'"
    using w yx a by (simp add: field_set_in_grid)
  moreover have "\<forall>r<20. \<forall>c<10. fld' ! r ! c
        = (if (int r, int c) \<in> set (a # cs) then 1 else fld ! r ! c)"
  proof (intro allI impI)
    fix r c :: nat assume rc: "r < 20" "c < 10"
    have "?f ! r ! c = (if r = nat y \<and> c = nat x then 1 else fld ! r ! c)"
      using Cons.prems(1) yx rc by (intro nth_field_update) auto
    moreover have "r = nat y \<and> c = nat x \<longleftrightarrow> (int r, int c) = a"
      using yx a by auto
    ultimately show "fld' ! r ! c = (if (int r, int c) \<in> set (a # cs) then 1 else fld ! r ! c)"
      using cells rc by auto
  qed
  ultimately show ?case
    using f' b' b1 by blast
qed

lemma figure_cell_binary:
  assumes "is_figure fig" "binary fig" "i < 4" "j < 4"
  shows "fig ! i ! j = 0 \<or> fig ! i ! j = 1"
proof -
  have "fig ! i \<in> set fig"
    using assms by (simp add: is_figure_def)
  moreover from this have "fig ! i ! j \<in> set (fig ! i)"
    using assms by (simp add: is_figure_def)
  ultimately show ?thesis
    using assms(2) unfolding binary_def by blast
qed

lemma attach_targets_in_grid:
  assumes "is_figure fig" "binary fig" "\<not> check_collide fld fig p"
  shows "\<forall>(y, x) \<in> set (attach_targets fig p). 0 \<le> y \<and> y < 20 \<and> 0 \<le> x \<and> x < 10"
proof -
  have "0 \<le> pos_y p + int i \<and> pos_y p + int i < 20 \<and> 0 \<le> pos_x p + int j \<and> pos_x p + int j < 10"
    if "i < 4" "j < 4" "fig ! i ! j \<noteq> 0" for i j
  proof -
    have "fig ! i ! j = 1"
      using figure_cell_binary [OF assms(1,2) that(1,2)] that(3) by simp
    then have "\<not> (pos_x p + int j < 0 \<or> pos_x p + int j \<ge> 10 \<or> pos_y p + int i < 0
                 \<or> pos_y p + int i \<ge> 20)"
      using assms(3) that(1,2) unfolding check_collide_iff cell_collides_def by blast
    then show ?thesis by simp
  qed
  then show ?thesis
    unfolding set_attach_targets by blast
qed

text \<open>
  C10. When the field is a 20 by 10 grid of cells 0 or 1, the figure a 4 by 4 matrix of cells
  0 or 1, and \<^verbatim>\<open>check_collide\<close> answers false for the figure at its position, every cell
  that \<^verbatim>\<open>attach_figure_to_field\<close> writes has its row in 0..19 and its column in 0..9; the
  call succeeds, the field it leaves is again a 20 by 10 grid of cells 0 or 1, and it differs
  from the old one exactly by the value 1 in the written cells.
\<close>

theorem attach_figure_to_field_in_grid:
  "is_field fld \<and> binary fld \<and> is_figure fig \<and> binary fig \<and> \<not> check_collide fld fig p \<longrightarrow>
     (\<forall>(y, x) \<in> set (attach_targets fig p). 0 \<le> y \<and> y < 20 \<and> 0 \<le> x \<and> x < 10) \<and>
     (\<exists>fld'. attach_figure_to_field fld fig p = Inr fld' \<and> is_field fld' \<and> binary fld' \<and>
        (\<forall>r<20. \<forall>c<10. fld' ! r ! c =
            (if (int r, int c) \<in> set (attach_targets fig p) then 1 else fld ! r ! c)))"
proof (intro impI, elim conjE)
  assume a: "is_field fld" "binary fld" "is_figure fig" "binary fig" "\<not> check_collide fld fig p"
  have grid: "\<forall>(y, x) \<in> set (attach_targets fig p). 0 \<le> y \<and> y < 20 \<and> 0 \<le> x \<and> x < 10"
    using a(3-5) by (rule attach_targets_in_grid)
  show "(\<forall>(y, x) \<in> set (attach_targets fig p). 0 \<le> y \<and> y < 20 \<and> 0 \<le> x \<and> x < 10) \<and>
     (\<exists>fld'. attach_figure_to_field fld fig p = Inr fld' \<and> is_field fld' \<and> binary fld' \<and>
        (\<forall>r<20. \<forall>c<10. fld' ! r ! c =
            (if (int r, int c) \<in> set (attach_targets fig p) then 1 else fld ! r ! c)))"
    using write_cells_in_grid [OF a(1) grid] a(2) grid
    unfolding attach_figure_to_field_def by blast
qed

theorem attach_figure_to_field_in_grid_witness:
  "is_field (field (game landed_example)) \<and> binary (field (game landed_example)) \<and>
   is_figure (figures_choice 0) \<and> binary (figures_choice 0) \<and>
   \<not> check_collide (field (game landed_example)) (figures_choice 0) \<lparr>pos_x = 3, pos_y = 18\<rparr> \<and>
   attach_targets (figures_choice 0) \<lparr>pos_x = 3, pos_y = 18\<rparr>
     = [(19, 3), (19, 4), (19, 5), (19, 6)] \<and>
   (\<exists>fld'. attach_figure_to_field (field (game landed_example)) (figures_choice 0)
              \<lparr>pos_x = 3, pos_y = 18\<rparr> = Inr fld' \<and> is_field fld' \<and> binary fld')"
proof -
  have hyps: "is_field (field (game landed_example))" "binary (field (game landed_example))"
    "is_figure (figures_choice 0)" "binary (figures_choice 0)"
    "\<not> check_collide (field (game landed_example)) (figures_choice 0) \<lparr>pos_x = 3, pos_y = 18\<rparr>"
    by code_simp+
  have cells: "attach_targets (figures_choice 0) \<lparr>pos_x = 3, pos_y = 18\<rparr>
     = [(19, 3), (19, 4), (19, 5), (19, 6)]"
    by code_simp
  show ?thesis
    using hyps cells
      attach_figure_to_field_in_grid [of "field (game landed_example)" "figures_choice 0"
        "\<lparr>pos_x = 3, pos_y = 18\<rparr>"]
    by blast
qed

section \<open>Spawn position\<close>

lemma all_from_split:
  "(\<forall>k. j \<le> k \<and> k < n \<longrightarrow> P k) \<longleftrightarrow> (j < (n::nat) \<longrightarrow> P j) \<and> (\<forall>k. j + 1 \<le> k \<and> k < n \<longrightarrow> P k)"
  using ex_from_split [of j n "\<lambda>k. \<not> P k"] by blast

lemma init_sum_row_zero:
  assumes "\<forall>k<4. 0 \<le> fig ! i ! k" "0 \<le> acc"
  shows "0 \<le> init_sum_row fig i j acc \<and>
         (init_sum_row fig i j acc = 0 \<longleftrightarrow> acc = 0 \<and> (\<forall>k. j \<le> k \<and> k < 4 \<longrightarrow> fig ! i ! k = 0))"
  using assms
proof (induction fig i j acc rule: init_sum_row.induct)
  case (1 fig i j acc)
  show ?case
  proof (cases "acc = 0 \<and> j < SIDE_OF_FIGURE_SQUARE")
    case True
    then have j: "j < 4" and acc: "acc = 0" by auto
    have cell: "0 \<le> fig ! i ! j"
      using "1.prems"(1) j by simp
    have step: "init_sum_row fig i j acc = init_sum_row fig i (j + 1) (acc + fig ! i ! j)"
      using True by (subst init_sum_row.simps) simp
    have ih: "0 \<le> init_sum_row fig i (j + 1) (acc + fig ! i ! j) \<and>
         (init_sum_row fig i (j + 1) (acc + fig ! i ! j) = 0 \<longleftrightarrow>
            acc + fig ! i ! j = 0 \<and> (\<forall>k. j + 1 \<le> k \<and> k < 4 \<longrightarrow> fig ! i ! k = 0))"
      using "1.IH" [OF True "1.prems"(1)] cell acc by simp
    show ?thesis
      unfolding step using ih acc j by (subst all_from_split) simp
  next
    case False
    then show ?thesis
      using "1.prems"(2) by (subst (1 2) init_sum_row.simps) auto
  qed
qed

lemma init_sum_col_zero:
  assumes "\<forall>k<4. 0 \<le> fig ! k ! i" "0 \<le> acc"
  shows "0 \<le> init_sum_col fig i j acc \<and>
         (init_sum_col fig i j acc = 0 \<longleftrightarrow> acc = 0 \<and> (\<forall>k. j \<le> k \<and> k < 4 \<longrightarrow> fig ! k ! i = 0))"
  using assms
proof (induction fig i j acc rule: init_sum_col.induct)
  case (1 fig i j acc)
  show ?case
  proof (cases "acc = 0 \<and> j < SIDE_OF_FIGURE_SQUARE")
    case True
    then have j: "j < 4" and acc: "acc = 0" by auto
    have cell: "0 \<le> fig ! j ! i"
      using "1.prems"(1) j by simp
    have step: "init_sum_col fig i j acc = init_sum_col fig i (j + 1) (acc + fig ! j ! i)"
      using True by (subst init_sum_col.simps) simp
    have ih: "0 \<le> init_sum_col fig i (j + 1) (acc + fig ! j ! i) \<and>
         (init_sum_col fig i (j + 1) (acc + fig ! j ! i) = 0 \<longleftrightarrow>
            acc + fig ! j ! i = 0 \<and> (\<forall>k. j + 1 \<le> k \<and> k < 4 \<longrightarrow> fig ! k ! i = 0))"
      using "1.IH" [OF True "1.prems"(1)] cell acc by simp
    show ?thesis
      unfolding step using ih acc j by (subst all_from_split) simp
  next
    case False
    then show ?thesis
      using "1.prems"(2) by (subst (1 2) init_sum_col.simps) auto
  qed
qed

lemma init_y_loop_done: "acc \<noteq> 0 \<Longrightarrow> init_y_loop fig i acc y = y"
  by (subst init_y_loop.simps) simp

lemma init_x_loop_done: "acc \<noteq> 0 \<Longrightarrow> init_x_loop fig i acc x = x"
  by (subst init_x_loop.simps) simp

lemma init_y_loop_count:
  assumes "nonneg_cells fig" "i \<le> 4"
  shows "init_y_loop fig i 0 y
         = y - int (length (takeWhile (\<lambda>i. \<forall>j<4. fig ! i ! j = 0) [i..<4]))"
  using assms(2)
proof (induction "4 - i" arbitrary: i y)
  case 0
  then show ?case by (subst init_y_loop.simps) simp
next
  case (Suc n)
  then have i: "i < 4" and n: "n = 4 - (i + 1)" by auto
  have row: "\<forall>k<4. 0 \<le> fig ! i ! k"
    using assms(1) i by (simp add: nonneg_cells_def)
  have zero: "init_sum_row fig i 0 0 = 0 \<longleftrightarrow> (\<forall>j<4. fig ! i ! j = 0)"
    using init_sum_row_zero [OF row, of 0 0] by simp
  have upt: "[i..<4] = i # [i + 1..<4]"
    using i by (simp add: upt_conv_Cons)
  show ?case
  proof (cases "\<forall>j<4. fig ! i ! j = 0")
    case True
    then have "init_y_loop fig i 0 y = init_y_loop fig (i + 1) 0 (y - 1)"
      using i zero by (subst init_y_loop.simps) (simp add: Let_def)
    then show ?thesis
      using Suc.hyps(1) [OF n, of "y - 1"] i True by (simp add: upt)
  next
    case False
    then have nz: "init_sum_row fig i 0 0 \<noteq> 0"
      using zero by blast
    then have "init_y_loop fig i 0 y
        = init_y_loop fig (i + 1) (init_sum_row fig i 0 0) y"
      using i by (subst init_y_loop.simps) (simp add: Let_def)
    then show ?thesis
      using False nz by (simp add: upt init_y_loop_done)
  qed
qed

lemma init_x_loop_count:
  assumes "nonneg_cells fig" "i \<le> 4"
  shows "init_x_loop fig i 0 x
         = x - int (length (takeWhile (\<lambda>j. \<forall>i<4. fig ! i ! j = 0) [i..<4]))"
  using assms(2)
proof (induction "4 - i" arbitrary: i x)
  case 0
  then show ?case by (subst init_x_loop.simps) simp
next
  case (Suc n)
  then have i: "i < 4" and n: "n = 4 - (i + 1)" by auto
  have col: "\<forall>k<4. 0 \<le> fig ! k ! i"
    using assms(1) i by (simp add: nonneg_cells_def)
  have zero: "init_sum_col fig i 0 0 = 0 \<longleftrightarrow> (\<forall>j<4. fig ! j ! i = 0)"
    using init_sum_col_zero [OF col, of 0 0] by simp
  have upt: "[i..<4] = i # [i + 1..<4]"
    using i by (simp add: upt_conv_Cons)
  show ?case
  proof (cases "\<forall>j<4. fig ! j ! i = 0")
    case True
    then have "init_x_loop fig i 0 x = init_x_loop fig (i + 1) 0 (x - 1)"
      using i zero by (subst init_x_loop.simps) (simp add: Let_def)
    then show ?thesis
      using Suc.hyps(1) [OF n, of "x - 1"] i True by (simp add: upt)
  next
    case False
    then have nz: "init_sum_col fig i 0 0 \<noteq> 0"
      using zero by blast
    then have "init_x_loop fig i 0 x
        = init_x_loop fig (i + 1) (init_sum_col fig i 0 0) x"
      using i by (subst init_x_loop.simps) (simp add: Let_def)
    then show ?thesis
      using False nz by (simp add: upt init_x_loop_done)
  qed
qed

lemma init_figure_position_eq:
  assumes "nonneg_cells fig"
  shows "init_figure_position fig =
           \<lparr>pos_x = 3 - int (leading_empty_cols fig), pos_y = - int (leading_empty_rows fig)\<rparr>"
  using init_y_loop_count [OF assms, of 0 0] init_x_loop_count [OF assms, of 0 3]
  by (simp add: init_figure_position_def leading_empty_rows_def leading_empty_cols_def)

lemma binary_cells_figures_choice: "n < 7 \<Longrightarrow> binary_cells (figures_choice n)"
  unfolding binary_cells_def
  by (drule less_7_cases) (auto simp: figures_choice_def all_figures_def dest!: less_4_cases)

lemma has_set_cell_figures_choice:
  assumes "n < 7"
  shows "has_set_cell (figures_choice n)"
proof -
  have "figures_choice n ! 1 ! 1 = 1 \<or> figures_choice n ! 2 ! 1 = 1"
    using assms by (drule_tac less_7_cases) (auto simp: figures_choice_def all_figures_def)
  moreover have "(1::nat) < 4" "(2::nat) < 4"
    by simp_all
  ultimately show ?thesis
    unfolding has_set_cell_def by blast
qed

lemma binary_cells_rotate: "binary_cells m \<Longrightarrow> binary_cells (rotate_figure m)"
  by (simp add: binary_cells_def rotate_figure_nth)

lemma has_set_cell_rotate:
  assumes "has_set_cell m"
  shows "has_set_cell (rotate_figure m)"
proof -
  obtain a b where ab: "a < 4" "b < 4" "m ! a ! b = 1"
    using assms by (auto simp: has_set_cell_def)
  have "rotate_figure m ! (3 - b) ! a = m ! a ! b"
    using ab by (simp add: rotate_figure_nth)
  moreover have "3 - b < 4" by simp
  ultimately show ?thesis
    unfolding has_set_cell_def using ab by metis
qed

lemma spawned_figure:
  assumes "n < 7"
  shows "binary_cells ((rotate_figure ^^ k) (figures_choice n))"
    and "has_set_cell ((rotate_figure ^^ k) (figures_choice n))"
  using assms
  by (induction k)
     (simp_all add: binary_cells_figures_choice has_set_cell_figures_choice
        binary_cells_rotate has_set_cell_rotate)

lemma takeWhile_upt_props:
  assumes "\<exists>i<n. \<not> P i"
  shows "length (takeWhile P [0..<n]) < n"
    and "\<not> P (length (takeWhile P [0..<n]))"
    and "\<forall>i<length (takeWhile P [0..<n]). P i"
proof -
  have "takeWhile P [0..<n] \<noteq> [0..<n]"
    using assms by auto
  then have "length (takeWhile P [0..<n]) \<noteq> length [0..<n]"
    using takeWhile_eq_take [of P "[0..<n]"] by auto
  then show lt: "length (takeWhile P [0..<n]) < n"
    using length_takeWhile_le [of P "[0..<n]"] by simp
  show "\<not> P (length (takeWhile P [0..<n]))"
    using nth_length_takeWhile [of P "[0..<n]"] lt by simp
  show "\<forall>i<length (takeWhile P [0..<n]). P i"
  proof (intro allI impI)
    fix i assume i: "i < length (takeWhile P [0..<n])"
    then have "takeWhile P [0..<n] ! i \<in> set (takeWhile P [0..<n])"
      by simp
    then have "P (takeWhile P [0..<n] ! i)"
      by (rule set_takeWhileD [THEN conjunct2])
    moreover have "takeWhile P [0..<n] ! i = [0..<n] ! i"
      using i by (rule takeWhile_nth)
    ultimately show "P i"
      using i lt by simp
  qed
qed

lemma nonneg_cells_binary: "binary_cells m \<Longrightarrow> nonneg_cells m"
  unfolding binary_cells_def nonneg_cells_def by (metis order_refl zero_le_one)

lemma leading_empty_rows_props:
  assumes "binary_cells m" "has_set_cell m"
  shows "leading_empty_rows m < 4"
    and "\<exists>j<4. m ! leading_empty_rows m ! j = 1"
    and "\<forall>i<leading_empty_rows m. \<forall>j<4. m ! i ! j = 0"
proof -
  have ex: "\<exists>i<4. \<not> (\<forall>j<4. m ! i ! j = 0)"
    using assms(2) unfolding has_set_cell_def by fastforce
  note props = takeWhile_upt_props [OF ex, folded leading_empty_rows_def]
  show lt: "leading_empty_rows m < 4" by (rule props(1))
  show "\<forall>i<leading_empty_rows m. \<forall>j<4. m ! i ! j = 0" by (rule props(3))
  show "\<exists>j<4. m ! leading_empty_rows m ! j = 1"
    using props(2) lt assms(1) unfolding binary_cells_def by blast
qed

lemma leading_empty_cols_props:
  assumes "binary_cells m" "has_set_cell m"
  shows "leading_empty_cols m < 4"
    and "\<exists>i<4. m ! i ! leading_empty_cols m = 1"
    and "\<forall>j<leading_empty_cols m. \<forall>i<4. m ! i ! j = 0"
proof -
  have ex: "\<exists>j<4. \<not> (\<forall>i<4. m ! i ! j = 0)"
    using assms(2) unfolding has_set_cell_def by fastforce
  note props = takeWhile_upt_props [OF ex, folded leading_empty_cols_def]
  show lt: "leading_empty_cols m < 4" by (rule props(1))
  show "\<forall>j<leading_empty_cols m. \<forall>i<4. m ! i ! j = 0" by (rule props(3))
  show "\<exists>i<4. m ! i ! leading_empty_cols m = 1"
    using props(2) lt assms(1) unfolding binary_cells_def by blast
qed

text \<open>
  C2, as the code has it. \<^verbatim>\<open>init_figure_position\<close> starts at x = 3 and y = 0 and lowers y by
  one for each all-zero row at the top of the figure and x by one for each all-zero column at
  its left. For each of the seven shapes after any number of rotations the topmost non-empty
  row of the figure therefore lies on field row 0, and its leftmost non-empty column (not the
  left edge of the 4 by 4 box) lies on field column 3.
\<close>

theorem init_figure_position_spawned:
  "\<forall>n<7. \<forall>k.
     (let fig = (rotate_figure ^^ k) (figures_choice n);
          p = init_figure_position fig;
          top = leading_empty_rows fig;
          left = leading_empty_cols fig
      in pos_y p + int top = 0 \<and> top < 4 \<and>
         (\<exists>j<4. fig ! top ! j = 1) \<and> (\<forall>i<top. \<forall>j<4. fig ! i ! j = 0) \<and>
         pos_x p + int left = 3 \<and> left < 4 \<and>
         (\<exists>i<4. fig ! i ! left = 1) \<and> (\<forall>j<left. \<forall>i<4. fig ! i ! j = 0))"
proof (intro allI impI)
  fix n k :: nat assume n: "n < 7"
  let ?fig = "(rotate_figure ^^ k) (figures_choice n)"
  have b: "binary_cells ?fig" and h: "has_set_cell ?fig"
    using spawned_figure [OF n] by simp_all
  have p: "init_figure_position ?fig =
      \<lparr>pos_x = 3 - int (leading_empty_cols ?fig), pos_y = - int (leading_empty_rows ?fig)\<rparr>"
    using b by (intro init_figure_position_eq nonneg_cells_binary)
  show "let fig = ?fig; p = init_figure_position fig;
          top = leading_empty_rows fig; left = leading_empty_cols fig
      in pos_y p + int top = 0 \<and> top < 4 \<and>
         (\<exists>j<4. fig ! top ! j = 1) \<and> (\<forall>i<top. \<forall>j<4. fig ! i ! j = 0) \<and>
         pos_x p + int left = 3 \<and> left < 4 \<and>
         (\<exists>i<4. fig ! i ! left = 1) \<and> (\<forall>j<left. \<forall>i<4. fig ! i ! j = 0)"
    unfolding Let_def p
    using leading_empty_rows_props [OF b h] leading_empty_cols_props [OF b h]
    by simp
qed

theorem init_figure_position_spawned_witness:
  "(1::nat) < 7 \<and>
   init_figure_position ((rotate_figure ^^ 0) (figures_choice 1)) = \<lparr>pos_x = 2, pos_y = - 1\<rparr> \<and>
   leading_empty_rows ((rotate_figure ^^ 0) (figures_choice 1)) = 1 \<and>
   leading_empty_cols ((rotate_figure ^^ 0) (figures_choice 1)) = 1 \<and>
   pos_y (init_figure_position ((rotate_figure ^^ 0) (figures_choice 1))) + 1 = 0 \<and>
   pos_x (init_figure_position ((rotate_figure ^^ 0) (figures_choice 1))) + 1 = 3"
proof -
  have rows: "leading_empty_rows ((rotate_figure ^^ 0) (figures_choice 1)) = 1"
    by code_simp
  have cols: "leading_empty_cols ((rotate_figure ^^ 0) (figures_choice 1)) = 1"
    by code_simp
  have "(1::nat) < 7" by simp
  with init_figure_position_spawned
  have "let fig = (rotate_figure ^^ 0) (figures_choice 1);
          p = init_figure_position fig;
          top = leading_empty_rows fig;
          left = leading_empty_cols fig
      in pos_y p + int top = 0 \<and> top < 4 \<and>
         (\<exists>j<4. fig ! top ! j = 1) \<and> (\<forall>i<top. \<forall>j<4. fig ! i ! j = 0) \<and>
         pos_x p + int left = 3 \<and> left < 4 \<and>
         (\<exists>i<4. fig ! i ! left = 1) \<and> (\<forall>j<left. \<forall>i<4. fig ! i ! j = 0)"
    by blast
  then have "pos_y (init_figure_position ((rotate_figure ^^ 0) (figures_choice 1))) + 1 = 0"
    and "pos_x (init_figure_position ((rotate_figure ^^ 0) (figures_choice 1))) + 1 = 3"
    unfolding Let_def rows cols by simp_all
  then show ?thesis
    using rows cols
    by (cases "init_figure_position ((rotate_figure ^^ 0) (figures_choice 1))") simp
qed

text \<open>
  The claim that the x offset of the box is always 3 fails for the square: its column 0 is
  empty, so it is placed at x = 2.
\<close>

theorem init_figure_position_not_centred:
  "figures_choice 1 = [[0, 0, 0, 0], [0, 1, 1, 0], [0, 1, 1, 0], [0, 0, 0, 0]] \<and>
   assign_next_figure 1 = figures_choice 1 \<and>
   init_figure_position (figures_choice 1) = \<lparr>pos_x = 2, pos_y = - 1\<rparr> \<and>
   pos_x (init_figure_position (figures_choice 1)) \<noteq> (10 - 4) div 2"
  by code_simp

section \<open>Hard drop\<close>

lemma no_collide_above_floor:
  assumes "has_set_cell fig" "\<not> check_collide fld fig p"
  shows "pos_y p < 20"
proof -
  obtain i j where ij: "i < 4" "j < 4" "fig ! i ! j = 1"
    using assms(1) by (auto simp: has_set_cell_def)
  have "\<not> cell_collides fld fig p i j"
    using assms(2) ij unfolding check_collide_iff by blast
  then have "pos_y p + int i < 20"
    using ij(3) by (simp add: cell_collides_def)
  then show ?thesis by simp
qed

lemma movedown_loop_stops:
  assumes fig: "has_set_cell fig"
  shows "\<exists>y'. movedown_loop fld fig p = Some (p\<lparr>pos_y := y'\<rparr>) \<and> pos_y p \<le> y' \<and>
           (\<forall>y. pos_y p \<le> y \<and> y < y' \<longrightarrow> \<not> check_collide fld fig (p\<lparr>pos_y := y\<rparr>)) \<and>
           check_collide fld fig (p\<lparr>pos_y := y'\<rparr>)"
proof (induction "nat (20 - pos_y p)" arbitrary: p rule: less_induct)
  case less
  show ?case
  proof (cases "check_collide fld fig p")
    case True
    then have "movedown_loop fld fig p = Some (p\<lparr>pos_y := pos_y p\<rparr>)"
      by (subst movedown_loop.simps) simp
    then show ?thesis
      using True by (intro exI [of _ "pos_y p"]) auto
  next
    case False
    let ?q = "p\<lparr>pos_y := pos_y p + 1\<rparr>"
    have "pos_y p < 20"
      using fig False by (rule no_collide_above_floor)
    then have "nat (20 - pos_y ?q) < nat (20 - pos_y p)"
      by simp
    then obtain y' where y': "movedown_loop fld fig ?q = Some (?q\<lparr>pos_y := y'\<rparr>)"
        "pos_y ?q \<le> y'"
        "\<forall>y. pos_y ?q \<le> y \<and> y < y' \<longrightarrow> \<not> check_collide fld fig (?q\<lparr>pos_y := y\<rparr>)"
        "check_collide fld fig (?q\<lparr>pos_y := y'\<rparr>)"
      using less [of ?q] by blast
    have "movedown_loop fld fig p = Some (p\<lparr>pos_y := y'\<rparr>)"
      using False y'(1) by (subst movedown_loop.simps) simp
    moreover have "pos_y p \<le> y'"
      using y'(2) by simp
    moreover have "\<not> check_collide fld fig (p\<lparr>pos_y := y\<rparr>)" if "pos_y p \<le> y" "y < y'" for y
    proof (cases "y = pos_y p")
      case True
      then show ?thesis using False by simp
    next
      case False
      then have "pos_y ?q \<le> y" using that by simp
      then show ?thesis using y'(3) that by simp
    qed
    moreover have "check_collide fld fig (p\<lparr>pos_y := y'\<rparr>)"
      using y'(4) by simp
    ultimately show ?thesis by blast
  qed
qed

text \<open>
  C8, as the code has it. In state MOVING, with a figure that has a set cell and does not
  collide where it is, action Down returns, and it leaves the figure at the greatest offset
  \<open>y'\<close> from the present one on such that the figure collides at no offset between the
  present one and \<open>y'\<close>: the first position at which it rests, one row above the first
  collision. The x offset, the figure, the field and the game info are unchanged, and the
  state becomes SHIFTING.
\<close>

theorem movedown_first_rest:
  "state s = MOVING \<and> has_set_cell (figure s) \<and>
   \<not> check_collide (field (game s)) (figure s) (fig_pos s) \<longrightarrow>
   (\<exists>y'. userInput s Down random
            = Inr (s\<lparr>fig_pos := (fig_pos s)\<lparr>pos_y := y'\<rparr>, state := SHIFTING\<rparr>) \<and>
         pos_y (fig_pos s) \<le> y' \<and>
         (\<forall>y. pos_y (fig_pos s) \<le> y \<and> y \<le> y' \<longrightarrow>
              \<not> check_collide (field (game s)) (figure s) ((fig_pos s)\<lparr>pos_y := y\<rparr>)) \<and>
         check_collide (field (game s)) (figure s) ((fig_pos s)\<lparr>pos_y := y' + 1\<rparr>))"
proof (intro impI, elim conjE)
  assume st: "state s = MOVING" and fig: "has_set_cell (figure s)"
    and free: "\<not> check_collide (field (game s)) (figure s) (fig_pos s)"
  let ?fld = "field (game s)" and ?fig = "figure s" and ?p = "fig_pos s"
  obtain z where z: "movedown_loop ?fld ?fig ?p = Some (?p\<lparr>pos_y := z\<rparr>)" "pos_y ?p \<le> z"
      "\<forall>y. pos_y ?p \<le> y \<and> y < z \<longrightarrow> \<not> check_collide ?fld ?fig (?p\<lparr>pos_y := y\<rparr>)"
      "check_collide ?fld ?fig (?p\<lparr>pos_y := z\<rparr>)"
    using movedown_loop_stops [OF fig, of ?fld ?p] by blast
  have "z \<noteq> pos_y ?p"
    using z(4) free by auto
  then have lt: "pos_y ?p < z"
    using z(2) by simp
  have "userInput s Down random = Inr (s\<lparr>fig_pos := ?p\<lparr>pos_y := z - 1\<rparr>, state := SHIFTING\<rparr>)"
    using st z(1) by (simp add: userInput_def on_moving_state_def movedown_def)
  moreover have "pos_y ?p \<le> z - 1"
    using lt by simp
  moreover have "\<forall>y. pos_y ?p \<le> y \<and> y \<le> z - 1 \<longrightarrow> \<not> check_collide ?fld ?fig (?p\<lparr>pos_y := y\<rparr>)"
    using z(3) by simp
  moreover have "check_collide ?fld ?fig (?p\<lparr>pos_y := z - 1 + 1\<rparr>)"
    using z(4) by simp
  ultimately show "\<exists>y'. userInput s Down random
            = Inr (s\<lparr>fig_pos := ?p\<lparr>pos_y := y'\<rparr>, state := SHIFTING\<rparr>) \<and>
         pos_y ?p \<le> y' \<and>
         (\<forall>y. pos_y ?p \<le> y \<and> y \<le> y' \<longrightarrow> \<not> check_collide ?fld ?fig (?p\<lparr>pos_y := y\<rparr>)) \<and>
         check_collide ?fld ?fig (?p\<lparr>pos_y := y' + 1\<rparr>)"
    by blast
qed

theorem movedown_first_rest_witness:
  "state moving_example = MOVING \<and> has_set_cell (figure moving_example) \<and>
   \<not> check_collide (field (game moving_example)) (figure moving_example) (fig_pos moving_example) \<and>
   userInput moving_example Down 0
     = Inr (moving_example\<lparr>fig_pos := \<lparr>pos_x = 3, pos_y = 18\<rparr>, state := SHIFTING\<rparr>) \<and>
   (\<exists>y'. userInput moving_example Down 0
            = Inr (moving_example\<lparr>fig_pos := (fig_pos moving_example)\<lparr>pos_y := y'\<rparr>,
                                   state := SHIFTING\<rparr>) \<and>
         check_collide (field (game moving_example)) (figure moving_example)
           ((fig_pos moving_example)\<lparr>pos_y := y' + 1\<rparr>))"
proof -
  have hyps: "state moving_example = MOVING" "has_set_cell (figure moving_example)"
    "\<not> check_collide (field (game moving_example)) (figure moving_example)
        (fig_pos moving_example)"
    by code_simp+
  have run: "userInput moving_example Down 0
     = Inr (moving_example\<lparr>fig_pos := \<lparr>pos_x = 3, pos_y = 18\<rparr>, state := SHIFTING\<rparr>)"
    by code_simp
  show ?thesis
    using hyps run movedown_first_rest [of moving_example 0] by blast
qed

text \<open>
  The offset reached is not the greatest one without a collision: under filled cells that
  hang in row 10 the bar stops at y = 8, although it would not collide at y = 18.
\<close>

theorem movedown_stops_at_overhang:
  "state overhang_example = MOVING \<and> has_set_cell (figure overhang_example) \<and>
   \<not> check_collide (field (game overhang_example)) (figure overhang_example)
       (fig_pos overhang_example) \<and>
   userInput overhang_example Down 0
     = Inr (overhang_example\<lparr>fig_pos := \<lparr>pos_x = 3, pos_y = 8\<rparr>, state := SHIFTING\<rparr>) \<and>
   \<not> check_collide (field (game overhang_example)) (figure overhang_example)
       \<lparr>pos_x = 3, pos_y = 18\<rparr> \<and>
   (8::int) < 18"
  by code_simp

section \<open>The high score record\<close>



















section \<open>Attaching step of the controller\<close>

text \<open>
  What one step in state ATTACHING does once the figure is attached: the level test decides
  for GAMEOVER; otherwise the state becomes SPAWN only if the figure collides with the field
  left by the clearing pass, and stays ATTACHING if it does not.
\<close>

lemma on_attaching_state_result:
  assumes "state s = ATTACHING"
    and "attach_figure_to_field (field (game s)) (figure s) (fig_pos s) = Inr f1"
    and "destruction_of_rows f1 = (n_rows, f2)"
    and "g = recalculate_stats ((game s)\<lparr>field := f2\<rparr>) n_rows"
  shows "userInput s action random =
           Inr (s\<lparr>game := g,
                  state := (if level g > 10 then GAMEOVER
                            else if check_collide (field g) (figure s) (fig_pos s) then SPAWN
                            else ATTACHING)\<rparr>)"
  using assms by (simp add: userInput_def on_attaching_state_def Let_def)

text \<open>
  C1 at a configuration of play. The game of five squares from the initial state ends in
  state ATTACHING with the fifth square at rest, where it completes rows 18 and 19. The step
  attaches it, both rows are cleared and the cells under the square are empty again, so
  \<^verbatim>\<open>check_collide\<close> is false and the state is still ATTACHING after the step, at level 1
  and score 300. The next step attaches the square a second time, on the empty field, and
  only then reaches SPAWN.
\<close>

theorem on_attaching_state_stays_attaching:
  "play (init_game no_record) five_squares = Inr squares_example \<and>
   state squares_example = ATTACHING \<and>
   userInput squares_example No_signal 1
     = Inr (squares_example
             \<lparr>game := (game squares_example)
                        \<lparr>field := replicate 20 (replicate 10 0), score := 300\<rparr>\<rparr>) \<and>
   level (game squares_example) = 1 \<and>
   userInput (squares_example
               \<lparr>game := (game squares_example)
                          \<lparr>field := replicate 20 (replicate 10 0), score := 300\<rparr>\<rparr>) No_signal 1
     = Inr (squares_example
             \<lparr>game := (game squares_example)
                        \<lparr>field := (replicate 20 (replicate 10 0))
                                    [18 := [0, 0, 0, 0, 0, 0, 0, 0, 1, 1],
                                     19 := [0, 0, 0, 0, 0, 0, 0, 0, 1, 1]],
                         score := 300\<rparr>,
              state := SPAWN\<rparr>)"
  by code_simp

end
